theory Spec2Isabelle
  imports Complex_Main "HOL-Library.Word"
begin

unbundle bit_operations_syntax

section \<open>Settings templates of logitech\_receiver: a shallow embedding\<close>

text \<open>
  The theory embeds \<^verbatim>\<open>src/lib/logitech_receiver/settings_templates.py\<close>: the
  settings table, the feature-based discovery of settings (\<^verbatim>\<open>check_feature\<close>,
  \<^verbatim>\<open>check_feature_settings\<close>) and the device-dependent decoders for the DPI list,
  the multiplatform descriptors and the smart-shift record. Python names are kept without
  their leading underscore.
\<close>

subsection \<open>Bytes, exceptions and the helpers of common.py\<close>

type_synonym byte = "8 word"

text \<open>
  The exceptions the embedded code raises. All of them are subclasses of Python's
  \<^verbatim>\<open>Exception\<close>, which is what \<^verbatim>\<open>check_feature\<close> catches.
  \<open>StructError\<close> is \<^verbatim>\<open>struct.error\<close>, raised by \<^verbatim>\<open>unpack\<close> on a buffer of the
  wrong size; \<open>TypeError\<close> is raised by slicing or testing membership in \<^verbatim>\<open>None\<close>.
\<close>

datatype py_error = AssertionError | StructError | TypeError | ValueError | OtherError string

text \<open>
  Modelled from the spec: \<^verbatim>\<open>bytes2int\<close> and \<^verbatim>\<open>int2bytes\<close> of common.py, which is not
  part of the sources at hand. The spec has the codecs use big-endian unsigned integers:
  \<open>bytes2int\<close> reads a byte string as one (the empty string as 0), \<open>int2bytes x count\<close>
  writes the \<open>count\<close> low-order bytes of \<open>x\<close>, most significant first. The embedded code
  calls \<open>int2bytes\<close> with \<open>count = 1\<close> on values below 256 only.
\<close>

definition bytes2int :: "byte list \<Rightarrow> nat" where
  "bytes2int bs = foldl (\<lambda>acc b. acc * 256 + unat b) 0 bs"

fun int2bytes :: "nat \<Rightarrow> nat \<Rightarrow> byte list" where
  "int2bytes x 0 = []"
| "int2bytes x (Suc count) = int2bytes (x div 256) count @ [of_nat (x mod 256)]"

text \<open>
  \<^verbatim>\<open>unpack\<close> is \<^verbatim>\<open>struct.unpack\<close>: the buffer must have exactly the size of the format,
  otherwise \<^verbatim>\<open>struct.error\<close> is raised. \<open>B\<close> is one unsigned byte, \<open>H\<close> an unsigned
  16-bit integer, \<open>!\<close> network (big-endian) byte order. One function per format string
  used by the module.
\<close>

definition H :: "byte \<Rightarrow> byte \<Rightarrow> nat" where
  "H hi lo = unat hi * 256 + unat lo"

fun unpack_7H :: "byte list \<Rightarrow> py_error + nat list" where
  "unpack_7H [a0, a1, b0, b1, c0, c1, d0, d1, e0, e1, f0, f1, g0, g1] =
     Inr [H a0 a1, H b0 b1, H c0 c1, H d0 d1, H e0 e1, H f0 f1, H g0 g1]"
| "unpack_7H bs = Inl StructError"

fun unpack_BBB :: "byte list \<Rightarrow> py_error + (nat \<times> nat \<times> nat)" where
  "unpack_BBB [a, b, c] = Inr (unat a, unat b, unat c)"
| "unpack_BBB bs = Inl StructError"

fun unpack_BBHHH :: "byte list \<Rightarrow> py_error + (nat \<times> nat \<times> nat \<times> nat \<times> nat)" where
  "unpack_BBHHH [a, b, c0, c1, d0, d1, e0, e1] = Inr (unat a, unat b, H c0 c1, H d0 d1, H e0 e1)"
| "unpack_BBHHH bs = Inl StructError"

text \<open>Python's \<^verbatim>\<open>str\<close> on a non-negative integer: its decimal digits.\<close>

definition digit_char :: "nat \<Rightarrow> char" where
  "digit_char d = char_of (48 + d)"

function str :: "nat \<Rightarrow> string" where
  "str n = (if n < 10 then [digit_char n] else str (n div 10) @ [digit_char (n mod 10)])"
  by pat_completeness auto
termination
  by (relation "measure id") auto

text \<open>
  Python's \<^verbatim>\<open>range(start, stop, step)\<close> on non-negative integers. A zero step raises
  \<^verbatim>\<open>ValueError\<close>; a positive step counts up from \<open>start\<close> while below \<open>stop\<close>.
\<close>

function range_up :: "nat \<Rightarrow> nat \<Rightarrow> nat \<Rightarrow> nat list" where
  "range_up start stop step =
     (if 0 < step \<and> start < stop then start # range_up (start + step) stop step else [])"
  by pat_completeness auto
termination
  by (relation "measure (\<lambda>(start, stop, step). stop - start)") auto

definition range3 :: "nat \<Rightarrow> nat \<Rightarrow> nat \<Rightarrow> py_error + nat list" where
  "range3 start stop step = (if step = 0 then Inl ValueError else Inr (range_up start stop step))"

subsection \<open>Features, devices and validators\<close>

text \<open>
  Modelled from the spec: \<^verbatim>\<open>hidpp20.FEATURE\<close>, \<^verbatim>\<open>hidpp10.REGISTERS\<close> and
  \<^verbatim>\<open>hidpp10.DEVICE_KIND\<close>, the enumeration tables of the protocol modules, which are
  not part of the sources at hand. A feature is a numbered capability block; only the
  identity of the identifiers matters here. Every identifier the settings table uses is a
  non-zero named integer, hence true in a Python condition. \<open>F_OTHER\<close> stands for
  the features a device may advertise that the table does not mention. The prefixes
  \<open>F_\<close>, \<open>R_\<close> and \<open>DK_\<close> stand for the module's \<^verbatim>\<open>_F.\<close>, \<^verbatim>\<open>_R.\<close> and \<^verbatim>\<open>_DK.\<close>.
\<close>

datatype feature =
    F_HI_RES_SCROLLING | F_LOWRES_WHEEL | F_HIRES_WHEEL | F_FN_INVERSION | F_NEW_FN_INVERSION
  | F_K375S_FN_INVERSION | F_ADJUSTABLE_DPI | F_POINTER_SPEED | F_SMART_SHIFT | F_BACKLIGHT2
  | F_REPROG_CONTROLS_V4 | F_KEYBOARD_DISABLE_KEYS | F_MULTIPLATFORM | F_DUALPLATFORM
  | F_CHANGE_HOST | F_THUMB_WHEEL | F_GESTURE_2 | F_OTHER nat

datatype register =
  R_keyboard_hand_detection | R_keyboard_fn_swap | R_mouse_button_flags | R_mouse_dpi

datatype device_kind = DK_keyboard | DK_mouse | DK_trackball | DK_touchpad

text \<open>
  Modelled from the spec: \<^verbatim>\<open>NamedInts\<close> of common.py, a finite ordered set of named
  integer values. \<open>NamedInts\<close> holds the (value, name) pairs in the order they were set;
  \<open>NamedInts_list xs\<close> stands for the object \<^verbatim>\<open>NamedInts.list(xs)\<close> builds from a list of
  integers. Membership of an integer tests the values, membership of a string the names;
  an object with no entry is false in a condition. The length of the object is the number
  of its values: \<^verbatim>\<open>NamedInts.list\<close> names each integer by its decimal string, so equal
  integers of the list give one value.
\<close>

datatype named_ints = NamedInts "(nat \<times> string) list" | NamedInts_list "nat list"

definition int_in :: "nat \<Rightarrow> (nat \<times> string) list \<Rightarrow> bool" where
  "int_in i choices = (i \<in> fst ` set choices)"

definition str_in :: "string \<Rightarrow> (nat \<times> string) list \<Rightarrow> bool" where
  "str_in s choices = (s \<in> snd ` set choices)"

definition setitem :: "(nat \<times> string) list \<Rightarrow> nat \<Rightarrow> string \<Rightarrow> (nat \<times> string) list" where
  "setitem choices i s = choices @ [(i, s)]"

fun named_ints_len :: "named_ints \<Rightarrow> nat" where
  "named_ints_len (NamedInts choices) = length choices"
| "named_ints_len (NamedInts_list xs) = length (remdups xs)"

text \<open>
  The validators, with the arguments the module passes to their constructors (the classes
  themselves live in settings.py). An argument that is left out is \<open>None\<close>; the comments
  of the module give the defaults of \<^verbatim>\<open>ChoicesV\<close> as 0 leading bytes to skip and an empty
  prefix. \<open>EmptyList\<close> is the empty list that the multiplatform callback returns when the
  platform cannot be set, \<open>OtherV\<close> a validator of one of the classes whose callbacks are
  not embedded (\<^verbatim>\<open>ChoicesMapV\<close>, \<^verbatim>\<open>BitFieldV\<close>, \<^verbatim>\<open>BitFieldOMV\<close>, \<^verbatim>\<open>MultipleRangeV\<close>).
\<close>

datatype raw = RawInt nat | RawBytes "byte list"

datatype validator =
    BooleanV "raw option" "raw option" "raw option"
  | RangeV nat nat nat
  | ChoicesV named_ints "nat option" nat "byte list"
  | EmptyList
  | OtherV string

text \<open>
  Modelled from the spec: the constructor of \<^verbatim>\<open>ChoicesV\<close> (\<^verbatim>\<open>ChoicesValidator\<close> of
  settings.py, not part of the sources at hand). The choice codec is over a set of named
  values to choose from: the constructor asserts that there is more than one choice, and
  raises \<open>AssertionError\<close> otherwise. The values the module hands to it fit the byte
  counts it asks for.
\<close>

definition new_ChoicesV :: "named_ints \<Rightarrow> nat option \<Rightarrow> nat \<Rightarrow> byte list \<Rightarrow> py_error + validator" where
  "new_ChoicesV choices byte_count read_skip_byte_count write_prefix_bytes =
     (if 1 < named_ints_len choices
      then Inr (ChoicesV choices byte_count read_skip_byte_count write_prefix_bytes)
      else Inl AssertionError)"

datatype callback_name =
    reprogrammable_keys_callback | disable_keyboard_keys_callback | change_host_callback
  | gesture2_gestures_callback | gesture2_params_callback

text \<open>
  The device handle, as far as the module uses it. \<open>features\<close> is \<open>None\<close> while the device
  has no feature metadata. \<open>protocol\<close> is the protocol version, \<open>None\<close> or 0 when it is
  not known. \<open>feature_request f fn params\<close> is the reply of the device to function \<open>fn\<close>
  (the function number times 16) of feature \<open>f\<close>, \<open>None\<close> when there is none.
  \<open>callback_result\<close> gives the outcome, on this device, of the five validator callbacks
  that only wrap queries of modules not at hand (the keys, the host names, the gestures).
\<close>

record device =
  features :: "feature set option"
  online :: bool
  protocol :: "rat option"
  feature_request :: "feature \<Rightarrow> nat \<Rightarrow> byte list \<Rightarrow> byte list option"
  callback_result :: "callback_name \<Rightarrow> py_error + validator option"

subsection \<open>Readers, writers and settings\<close>

datatype rw =
    RegisterRW register
  | FeatureRW feature nat nat bool
  | FeatureRWMap feature nat nat nat
  | SmartShiftRW feature

datatype setting_class = C_Setting | C_Settings | C_BitFieldSetting | C_BitFieldOMSetting | C_LongSettings

text \<open>
  A setting template is what the constructor functions of the module build: the key of the
  setting (the first of its three strings; label and tool tip are presentation), the
  reader/writer, either a validator or a callback that computes one from the device, the
  device kinds and the persist flag.
\<close>

datatype codec = Validator validator | Callback "device \<Rightarrow> py_error + validator option"

datatype template =
  Template setting_class string rw codec "device_kind list option" bool

definition Setting :: "string \<Rightarrow> rw \<Rightarrow> codec \<Rightarrow> device_kind list option \<Rightarrow> bool \<Rightarrow> template" where
  "Setting = Template C_Setting"

definition Settings :: "string \<Rightarrow> rw \<Rightarrow> codec \<Rightarrow> device_kind list option \<Rightarrow> bool \<Rightarrow> template" where
  "Settings = Template C_Settings"

definition BitFieldSetting :: "string \<Rightarrow> rw \<Rightarrow> codec \<Rightarrow> device_kind list option \<Rightarrow> bool \<Rightarrow> template" where
  "BitFieldSetting = Template C_BitFieldSetting"

definition BitFieldOMSetting :: "string \<Rightarrow> rw \<Rightarrow> codec \<Rightarrow> device_kind list option \<Rightarrow> bool \<Rightarrow> template" where
  "BitFieldOMSetting = Template C_BitFieldOMSetting"

definition LongSettings :: "string \<Rightarrow> rw \<Rightarrow> codec \<Rightarrow> device_kind list option \<Rightarrow> bool \<Rightarrow> template" where
  "LongSettings = Template C_LongSettings"

text \<open>A setting of a device: a template bound to the device, with its validator.\<close>

record setting =
  setting_class :: setting_class
  name :: string
  rw :: rw
  validator :: validator
  device_kinds :: "device_kind list option"
  persist :: bool

text \<open>
  Modelled from the spec: calling a template on a device (\<^verbatim>\<open>Setting.__call__\<close> of
  settings.py, not part of the sources at hand). A template with a validator gives the
  setting. A template with a callback runs it on the device: a validator gives the
  setting with it; a result that is false in a condition, that is \<open>None\<close> or the empty
  list, means that no setting is created for the device (the multiplatform callback
  returns the empty list with the comment \<^verbatim>\<open>can't set platform so don't create setting\<close>);
  and an exception of the callback is the exception of the call.
\<close>

definition bind :: "template \<Rightarrow> validator \<Rightarrow> setting" where
  "bind t v = (case t of Template c n r _ dk p \<Rightarrow>
     \<lparr>setting_class = c, name = n, rw = r, validator = v, device_kinds = dk, persist = p\<rparr>)"

definition setting_call :: "template \<Rightarrow> device \<Rightarrow> py_error + setting option" where
  "setting_call t device =
     (case t of Template _ _ _ (Validator v) _ _ \<Rightarrow> Inr (Some (bind t v))
      | Template _ _ _ (Callback callback) _ _ \<Rightarrow>
          (case callback device of
             Inl e \<Rightarrow> Inl e
           | Inr None \<Rightarrow> Inr None
           | Inr (Some v) \<Rightarrow> (if v = EmptyList then Inr None else Inr (Some (bind t v)))))"

text \<open>
  Modelled from the spec: the feature adapter (\<^verbatim>\<open>FeatureRW.read\<close> and \<^verbatim>\<open>FeatureRW.write\<close>
  of settings.py): read and write address the feature with their function selector
  through the request of the device.
\<close>

definition FeatureRW_read :: "feature \<Rightarrow> nat \<Rightarrow> device \<Rightarrow> byte list option" where
  "FeatureRW_read f read_fnid device = feature_request device f read_fnid []"

definition FeatureRW_write :: "feature \<Rightarrow> nat \<Rightarrow> device \<Rightarrow> byte list \<Rightarrow> byte list option" where
  "FeatureRW_write f write_fnid device data_bytes = feature_request device f write_fnid data_bytes"

subsection \<open>Smart shift\<close>

definition MIN_SMART_SHIFT_VALUE :: nat where
  "MIN_SMART_SHIFT_VALUE = 0"

definition MAX_SMART_SHIFT_VALUE :: nat where
  "MAX_SMART_SHIFT_VALUE = 50"

text \<open>
  \<^verbatim>\<open>_SmartShiftRW.read\<close>: the read of the feature adapter, with the default function 0x00,
  gives the record of the device; slicing \<open>None\<close> (no reply) raises \<open>TypeError\<close>.
\<close>

definition SmartShiftRW_read :: "device \<Rightarrow> py_error + byte list" where
  "SmartShiftRW_read device =
     (case FeatureRW_read F_SMART_SHIFT 0x00 device of
        None \<Rightarrow> Inl TypeError
      | Some v \<Rightarrow>
          Inr (if bytes2int (take 1 v) = 1 then int2bytes MIN_SMART_SHIFT_VALUE 1
               else let threshold = min (bytes2int (take 1 (drop 1 v))) MAX_SMART_SHIFT_VALUE
                    in int2bytes threshold 1))"

text \<open>
  \<^verbatim>\<open>_SmartShiftRW.write\<close>: the record \<open>data\<close> goes to the write of the feature adapter,
  with the default function 0x10; the result is the reply of the device.
\<close>

definition SmartShiftRW_write :: "device \<Rightarrow> byte list \<Rightarrow> byte list option" where
  "SmartShiftRW_write device data_bytes =
     (let threshold = bytes2int data_bytes;
          mode = (if threshold = MIN_SMART_SHIFT_VALUE then 1 else 2);
          threshold = (if threshold = MAX_SMART_SHIFT_VALUE then 255 else threshold);
          data = int2bytes mode 1 @ int2bytes threshold 1 @ int2bytes threshold 1
      in FeatureRW_write F_SMART_SHIFT 0x10 device data)"

subsection \<open>The DPI list\<close>

text \<open>
  The loop of \<^verbatim>\<open>_feature_adjustable_dpi_callback\<close> over the unpacked values: \<open>step\<close> is
  \<open>None\<close> until a step value is met, \<open>dpi_list\<close> collects the literal values. A zero value
  breaks the loop; a failed assertion raises \<open>AssertionError\<close>.
\<close>

fun dpi_list_loop :: "nat list \<Rightarrow> nat option \<Rightarrow> nat list \<Rightarrow> py_error + (nat option \<times> nat list)" where
  "dpi_list_loop [] step dpi_list = Inr (step, dpi_list)"
| "dpi_list_loop (val # vals) step dpi_list =
     (if val = 0 then Inr (step, dpi_list)
      else if drop_bit 13 val = 7 then
        (if step = None \<and> length dpi_list = 1
         then dpi_list_loop vals (Some (val AND 0x1fff)) dpi_list
         else Inl AssertionError)
      else dpi_list_loop vals step (dpi_list @ [val]))"

text \<open>
  The rest of the callback: a step that is neither \<open>None\<close> nor 0 is true, and then the
  list must hold two values, which \<^verbatim>\<open>range\<close> expands; an empty result gives \<open>None\<close>,
  any other goes to the constructor of \<^verbatim>\<open>ChoicesV\<close>.
\<close>

definition dpi_validator :: "nat list \<Rightarrow> py_error + validator option" where
  "dpi_validator dpi_list =
     (if dpi_list \<noteq> [] then
        (case new_ChoicesV (NamedInts_list dpi_list) (Some 3) 0 [] of
           Inl e \<Rightarrow> Inl e
         | Inr v \<Rightarrow> Inr (Some v))
      else Inr None)"

definition dpi_list_of :: "nat list \<Rightarrow> py_error + validator option" where
  "dpi_list_of vals =
     (case dpi_list_loop vals None [] of
        Inl e \<Rightarrow> Inl e
      | Inr (step, dpi_list) \<Rightarrow>
          (if step \<noteq> None \<and> step \<noteq> Some 0 then
             (if length dpi_list = 2 then
                (case range3 (dpi_list ! 0) (dpi_list ! 1 + 1) (the step) of
                   Inl e \<Rightarrow> Inl e
                 | Inr r \<Rightarrow> dpi_validator r)
              else Inl AssertionError)
           else dpi_validator dpi_list))"

definition feature_adjustable_dpi_callback :: "device \<Rightarrow> py_error + validator option" where
  "feature_adjustable_dpi_callback device =
     (case feature_request device F_ADJUSTABLE_DPI 0x10 [] of
        None \<Rightarrow> Inl AssertionError
      | Some reply \<Rightarrow>
          (if reply = [] then Inl AssertionError
           else case unpack_7H (take 14 (drop 1 reply)) of
                  Inl e \<Rightarrow> Inl e
                | Inr vals \<Rightarrow> dpi_list_of vals))"

subsection \<open>The multiplatform descriptors\<close>

definition OSS :: "(string \<times> nat) list" where
  "OSS = [(''Linux'', 0x0400), (''MacOS'', 0x2000), (''Windows'', 0x0100), (''iOS'', 0x4000),
          (''Android'', 0x1000), (''WebOS'', 0x8000), (''Chrome'', 0x0800), (''WinEmb'', 0x0200),
          (''Tizen'', 0x0001)]"

definition str_os_version :: "nat \<Rightarrow> string" where
  "str_os_version version =
     (if version = 0 then []
      else if version AND 0xFF \<noteq> 0 then str (drop_bit 8 version) @ ''.'' @ str (version AND 0xFF)
      else str (drop_bit 8 version))"

definition str_os_versions :: "nat \<Rightarrow> nat \<Rightarrow> string" where
  "str_os_versions low high =
     (if low = 0 \<and> high = 0 then [] else '' '' @ str_os_version low @ ''-'' @ str_os_version high)"

text \<open>
  The first loop of \<^verbatim>\<open>_feature_multiplatform_callback\<close>: one request per descriptor index.
  A missing reply is sliced as \<open>None\<close>, which raises \<open>TypeError\<close>; a reply shorter than 8
  bytes fails to unpack. A descriptor is (platform, os\_flags, low, high).
\<close>

type_synonym descriptor = "nat \<times> nat \<times> nat \<times> nat"

fun read_descriptors :: "device \<Rightarrow> nat list \<Rightarrow> descriptor list \<Rightarrow> py_error + descriptor list" where
  "read_descriptors device [] descriptors = Inr descriptors"
| "read_descriptors device (index # indices) descriptors =
     (case feature_request device F_MULTIPLATFORM 0x10 [of_nat index] of
        None \<Rightarrow> Inl TypeError
      | Some descriptor \<Rightarrow>
          (case unpack_BBHHH (take 8 descriptor) of
             Inl e \<Rightarrow> Inl e
           | Inr (platform, _, os_flags, low, high) \<Rightarrow>
               read_descriptors device indices (descriptors @ [(platform, os_flags, low, high)])))"

text \<open>The nested loops over \<open>OSS\<close> and the descriptors, which fill \<open>choices\<close>.\<close>

fun choices_of_os :: "string \<Rightarrow> nat \<Rightarrow> descriptor list \<Rightarrow> (nat \<times> string) list \<Rightarrow> (nat \<times> string) list" where
  "choices_of_os os_name os_bit [] choices = choices"
| "choices_of_os os_name os_bit ((platform, os_flags, low, high) # descriptors) choices =
     (let os = os_name @ str_os_versions low high in
      if os_bit AND os_flags \<noteq> 0 \<and> \<not> int_in platform choices \<and> \<not> str_in os choices
      then choices_of_os os_name os_bit descriptors (setitem choices platform os)
      else choices_of_os os_name os_bit descriptors choices)"

fun choices_of_oss :: "(string \<times> nat) list \<Rightarrow> descriptor list \<Rightarrow> (nat \<times> string) list \<Rightarrow> (nat \<times> string) list" where
  "choices_of_oss [] descriptors choices = choices"
| "choices_of_oss ((os_name, os_bit) # oss) descriptors choices =
     choices_of_oss oss descriptors (choices_of_os os_name os_bit descriptors choices)"

definition feature_multiplatform_callback :: "device \<Rightarrow> py_error + validator option" where
  "feature_multiplatform_callback device =
     (case feature_request device F_MULTIPLATFORM 0x00 [] of
        None \<Rightarrow> Inl AssertionError
      | Some infos \<Rightarrow>
          (if infos = [] then Inl AssertionError
           else case unpack_BBB (take 3 infos) of
                  Inl e \<Rightarrow> Inl e
                | Inr (flags, _, num_descriptors) \<Rightarrow>
                    (if flags AND 0x02 = 0 then Inr (Some EmptyList)
                     else case read_descriptors device [0..<num_descriptors] [] of
                            Inl e \<Rightarrow> Inl e
                          | Inr descriptors \<Rightarrow>
                              (let choices = choices_of_oss OSS descriptors [] in
                               if choices \<noteq> [] then
                                 (case new_ChoicesV (NamedInts choices) None 6 [0xff] of
                                    Inl e \<Rightarrow> Inl e
                                  | Inr v \<Rightarrow> Inr (Some v))
                               else Inr None))))"

subsection \<open>The setting templates\<close>

text \<open>
  The strings of the settings. Of each triple (name, label, tool tip) only the name is
  kept: label and tool tip are translated display texts.
\<close>

definition HAND_DETECTION :: string where "HAND_DETECTION = ''hand-detection''"
definition SMOOTH_SCROLL :: string where "SMOOTH_SCROLL = ''smooth-scroll''"
definition SIDE_SCROLL :: string where "SIDE_SCROLL = ''side-scroll''"
definition HI_RES_SCROLL :: string where "HI_RES_SCROLL = ''hi-res-scroll''"
definition LOW_RES_SCROLL :: string where "LOW_RES_SCROLL = ''lowres-smooth-scroll''"
definition HIRES_INV :: string where "HIRES_INV = ''hires-smooth-invert''"
definition HIRES_RES :: string where "HIRES_RES = ''hires-smooth-resolution''"
definition FN_SWAP :: string where "FN_SWAP = ''fn-swap''"
definition DPI :: string where "DPI = ''dpi''"
definition POINTER_SPEED :: string where "POINTER_SPEED = ''pointer_speed''"
definition SMART_SHIFT :: string where "SMART_SHIFT = ''smart-shift''"
definition BACKLIGHT :: string where "BACKLIGHT = ''backlight''"
definition REPROGRAMMABLE_KEYS :: string where "REPROGRAMMABLE_KEYS = ''reprogrammable-keys''"
definition DISABLE_KEYS :: string where "DISABLE_KEYS = ''disable-keyboard-keys''"
definition PLATFORM :: string where "PLATFORM = ''multiplatform''"
definition CHANGE_HOST :: string where "CHANGE_HOST = ''change-host''"
definition THUMB_SCROLL_MODE :: string where "THUMB_SCROLL_MODE = ''thumb-scroll-mode''"
definition THUMB_SCROLL_INVERT :: string where "THUMB_SCROLL_INVERT = ''thumb-scroll-invert''"
definition GESTURE2_GESTURES :: string where "GESTURE2_GESTURES = ''gesture2-gestures''"
definition GESTURE2_PARAMS :: string where "GESTURE2_PARAMS = ''gesture2-params''"

text \<open>
  The feature-based constructors. \<^verbatim>\<open>FeatureRW\<close> reads with function 0x00 and writes
  with function 0x10 and waits for a reply unless told otherwise; a setting has no device
  kinds and persists unless told otherwise (the defaults the comments of the module give).
\<close>

definition feature_fn_swap :: template where
  "feature_fn_swap =
     Setting FN_SWAP (FeatureRW F_FN_INVERSION 0x00 0x10 False)
       (Validator (BooleanV None None None)) (Some [DK_keyboard]) True"

definition feature_new_fn_swap :: template where
  "feature_new_fn_swap =
     Setting FN_SWAP (FeatureRW F_NEW_FN_INVERSION 0x00 0x10 False)
       (Validator (BooleanV None None None)) (Some [DK_keyboard]) True"

definition feature_k375s_fn_swap :: template where
  "feature_k375s_fn_swap =
     (let validator = BooleanV (Some (RawBytes [0xFF, 0x01])) (Some (RawBytes [0xFF, 0x00])) None
      in Setting FN_SWAP (FeatureRW F_K375S_FN_INVERSION 0x00 0x10 False)
           (Validator validator) (Some [DK_keyboard]) True)"

definition feature_backlight2 :: template where
  "feature_backlight2 =
     Setting BACKLIGHT (FeatureRW F_BACKLIGHT2 0x00 0x10 False)
       (Validator (BooleanV None None None)) (Some [DK_keyboard]) True"

definition feature_hi_res_scroll :: template where
  "feature_hi_res_scroll =
     Setting HI_RES_SCROLL (FeatureRW F_HI_RES_SCROLLING 0x00 0x10 False)
       (Validator (BooleanV None None None)) (Some [DK_mouse, DK_trackball]) True"

definition feature_lowres_smooth_scroll :: template where
  "feature_lowres_smooth_scroll =
     Setting LOW_RES_SCROLL (FeatureRW F_LOWRES_WHEEL 0x00 0x10 False)
       (Validator (BooleanV None None None)) (Some [DK_mouse, DK_trackball]) True"

definition feature_hires_smooth_invert :: template where
  "feature_hires_smooth_invert =
     (let rw = FeatureRW F_HIRES_WHEEL 0x10 0x20 False;
          validator = BooleanV (Some (RawInt 0x04)) None (Some (RawInt 0x04))
      in Setting HIRES_INV rw (Validator validator) (Some [DK_mouse, DK_trackball]) True)"

definition feature_hires_smooth_resolution :: template where
  "feature_hires_smooth_resolution =
     (let rw = FeatureRW F_HIRES_WHEEL 0x10 0x20 False;
          validator = BooleanV (Some (RawInt 0x02)) None (Some (RawInt 0x02))
      in Setting HIRES_RES rw (Validator validator) (Some [DK_mouse, DK_trackball]) True)"

definition feature_smart_shift :: template where
  "feature_smart_shift =
     (let validator = RangeV MIN_SMART_SHIFT_VALUE MAX_SMART_SHIFT_VALUE 1
      in Setting SMART_SHIFT (SmartShiftRW F_SMART_SHIFT) (Validator validator)
           (Some [DK_mouse, DK_trackball]) True)"

definition feature_adjustable_dpi :: template where
  "feature_adjustable_dpi =
     (let rw = FeatureRW F_ADJUSTABLE_DPI 0x20 0x30 False
      in Setting DPI rw (Callback feature_adjustable_dpi_callback)
           (Some [DK_mouse, DK_trackball]) True)"

definition feature_pointer_speed :: template where
  "feature_pointer_speed =
     (let validator = RangeV 0x002e 0x01ff 2;
          rw = FeatureRW F_POINTER_SPEED 0x00 0x10 False
      in Setting POINTER_SPEED rw (Validator validator) (Some [DK_mouse, DK_trackball]) True)"

text \<open>
  The callbacks for the reprogrammable keys, the keys to disable, the hosts and the
  gestures query the device through modules that are not at hand; their outcome is read
  from the device.
\<close>

definition feature_reprogrammable_keys_callback :: "device \<Rightarrow> py_error + validator option" where
  "feature_reprogrammable_keys_callback device = callback_result device reprogrammable_keys_callback"

definition feature_reprogrammable_keys :: template where
  "feature_reprogrammable_keys =
     (let rw = FeatureRWMap F_REPROG_CONTROLS_V4 0x20 0x30 2
      in Settings REPROGRAMMABLE_KEYS rw (Callback feature_reprogrammable_keys_callback)
           (Some [DK_keyboard]) True)"

definition feature_disable_keyboard_keys_callback :: "device \<Rightarrow> py_error + validator option" where
  "feature_disable_keyboard_keys_callback device = callback_result device disable_keyboard_keys_callback"

definition feature_disable_keyboard_keys :: template where
  "feature_disable_keyboard_keys =
     (let rw = FeatureRW F_KEYBOARD_DISABLE_KEYS 0x10 0x20 False
      in BitFieldSetting DISABLE_KEYS rw (Callback feature_disable_keyboard_keys_callback)
           (Some [DK_keyboard]) True)"

definition feature_multiplatform :: template where
  "feature_multiplatform =
     (let rw = FeatureRW F_MULTIPLATFORM 0x00 0x30 False
      in Setting PLATFORM rw (Callback feature_multiplatform_callback) None True)"

definition PLATFORMS :: named_ints where
  "PLATFORMS = NamedInts (setitem (setitem [] 0x00 ''iOS, MacOS'') 0x01 ''Android, Windows'')"

text \<open>\<open>PLATFORMS\<close> has two choices, which the constructor of \<^verbatim>\<open>ChoicesV\<close> accepts.\<close>

definition feature_dualplatform :: template where
  "feature_dualplatform =
     (let validator = ChoicesV PLATFORMS None 0 [];
          rw = FeatureRW F_DUALPLATFORM 0x00 0x20 False
      in Setting PLATFORM rw (Validator validator) None True)"

definition feature_change_host_callback :: "device \<Rightarrow> py_error + validator option" where
  "feature_change_host_callback device = callback_result device change_host_callback"

definition feature_change_host :: template where
  "feature_change_host =
     (let rw = FeatureRW F_CHANGE_HOST 0x00 0x10 True
      in Setting CHANGE_HOST rw (Callback feature_change_host_callback) None False)"

definition feature_thumb_mode :: template where
  "feature_thumb_mode =
     (let rw = FeatureRW F_THUMB_WHEEL 0x10 0x20 False;
          validator = BooleanV (Some (RawBytes [0x01, 0x00])) (Some (RawBytes [0x00, 0x00]))
                        (Some (RawBytes [0x01, 0x00]))
      in Setting THUMB_SCROLL_MODE rw (Validator validator) (Some [DK_mouse, DK_trackball]) True)"

definition feature_thumb_invert :: template where
  "feature_thumb_invert =
     (let rw = FeatureRW F_THUMB_WHEEL 0x10 0x20 False;
          validator = BooleanV (Some (RawBytes [0x00, 0x01])) (Some (RawBytes [0x00, 0x00]))
                        (Some (RawBytes [0x00, 0x01]))
      in Setting THUMB_SCROLL_INVERT rw (Validator validator) (Some [DK_mouse, DK_trackball]) True)"

definition feature_gesture2_gestures_callback :: "device \<Rightarrow> py_error + validator option" where
  "feature_gesture2_gestures_callback device = callback_result device gesture2_gestures_callback"

definition feature_gesture2_gestures :: template where
  "feature_gesture2_gestures =
     (let rw = FeatureRW F_GESTURE_2 0x10 0x20 False
      in BitFieldOMSetting GESTURE2_GESTURES rw (Callback feature_gesture2_gestures_callback)
           (Some [DK_touchpad, DK_mouse]) True)"

definition feature_gesture2_params_callback :: "device \<Rightarrow> py_error + validator option" where
  "feature_gesture2_params_callback device = callback_result device gesture2_params_callback"

definition feature_gesture2_params :: template where
  "feature_gesture2_params =
     (let rw = FeatureRW F_GESTURE_2 0x70 0x80 False
      in LongSettings GESTURE2_PARAMS rw (Callback feature_gesture2_params_callback)
           (Some [DK_touchpad, DK_mouse]) True)"

subsection \<open>The settings table\<close>

text \<open>
  The register-based constructors are named only: the discovery by features does not call
  them.
\<close>

datatype register_fn =
  register_hand_detection | register_fn_swap | register_smooth_scroll | register_side_scroll
  | register_dpi

text \<open>A row of the table: (name, featureID, featureFn, registerFn, identifier).\<close>

type_synonym row = "string \<times> feature option \<times> template option \<times> register_fn option \<times> string"

definition replace_dash :: "string \<Rightarrow> string" where
  "replace_dash s = map (\<lambda>c. if c = CHR ''-'' then CHR ''_'' else c) s"

definition S :: "string \<Rightarrow> feature option \<Rightarrow> template option \<Rightarrow> register_fn option \<Rightarrow> string option \<Rightarrow> row" where
  "S nm featureID featureFn registerFn identifier =
     (nm, featureID, featureFn, registerFn,
      (case identifier of
         Some i \<Rightarrow> if i \<noteq> [] then i else replace_dash nm
       | None \<Rightarrow> replace_dash nm))"

definition SETTINGS_TABLE :: "row list" where
  "SETTINGS_TABLE = [
     S HAND_DETECTION None None (Some register_hand_detection) None,
     S SMOOTH_SCROLL None None (Some register_smooth_scroll) None,
     S SIDE_SCROLL None None (Some register_side_scroll) None,
     S HI_RES_SCROLL (Some F_HI_RES_SCROLLING) (Some feature_hi_res_scroll) None None,
     S LOW_RES_SCROLL (Some F_LOWRES_WHEEL) (Some feature_lowres_smooth_scroll) None None,
     S HIRES_INV (Some F_HIRES_WHEEL) (Some feature_hires_smooth_invert) None None,
     S HIRES_RES (Some F_HIRES_WHEEL) (Some feature_hires_smooth_resolution) None None,
     S FN_SWAP (Some F_FN_INVERSION) (Some feature_fn_swap) (Some register_fn_swap) None,
     S FN_SWAP (Some F_NEW_FN_INVERSION) (Some feature_new_fn_swap) None (Some ''new_fn_swap''),
     S FN_SWAP (Some F_K375S_FN_INVERSION) (Some feature_k375s_fn_swap) None (Some ''k375s_fn_swap''),
     S DPI (Some F_ADJUSTABLE_DPI) (Some feature_adjustable_dpi) (Some register_dpi) None,
     S POINTER_SPEED (Some F_POINTER_SPEED) (Some feature_pointer_speed) None None,
     S SMART_SHIFT (Some F_SMART_SHIFT) (Some feature_smart_shift) None None,
     S BACKLIGHT (Some F_BACKLIGHT2) (Some feature_backlight2) None None,
     S REPROGRAMMABLE_KEYS (Some F_REPROG_CONTROLS_V4) (Some feature_reprogrammable_keys) None None,
     S DISABLE_KEYS (Some F_KEYBOARD_DISABLE_KEYS) (Some feature_disable_keyboard_keys) None None,
     S PLATFORM (Some F_MULTIPLATFORM) (Some feature_multiplatform) None None,
     S PLATFORM (Some F_DUALPLATFORM) (Some feature_dualplatform) None (Some ''dualplatform''),
     S CHANGE_HOST (Some F_CHANGE_HOST) (Some feature_change_host) None None,
     S THUMB_SCROLL_MODE (Some F_THUMB_WHEEL) (Some feature_thumb_mode) None None,
     S THUMB_SCROLL_INVERT (Some F_THUMB_WHEEL) (Some feature_thumb_invert) None None,
     S GESTURE2_GESTURES (Some F_GESTURE_2) (Some feature_gesture2_gestures) None None,
     S GESTURE2_PARAMS (Some F_GESTURE_2) (Some feature_gesture2_params) None None]"

subsection \<open>Discovery of the settings of a device\<close>

text \<open>
  The logger of the module is state that the functions pass on: whether debug records are
  enabled, and the records written. \<open>LogDebug featureId detected\<close> is the record
  \<^verbatim>\<open>check_feature[featureId] detected ...\<close>, \<open>LogError featureId e\<close> the record
  \<^verbatim>\<open>check_feature[featureId] inconsistent feature ...\<close> with the trace of \<open>e\<close>.
\<close>

datatype log_record = LogDebug feature "setting option" | LogError feature py_error

record logger =
  debug_enabled :: bool
  records :: "log_record list"

definition log_debug :: "logger \<Rightarrow> feature \<Rightarrow> setting option \<Rightarrow> logger" where
  "log_debug lg featureId detected = lg\<lparr>records := records lg @ [LogDebug featureId detected]\<rparr>"

definition log_error :: "logger \<Rightarrow> feature \<Rightarrow> py_error \<Rightarrow> logger" where
  "log_error lg featureId e = lg\<lparr>records := records lg @ [LogError featureId e]\<rparr>"

text \<open>
  \<^verbatim>\<open>check_feature\<close>: the membership test is outside the \<^verbatim>\<open>try\<close>, so testing it on a
  device without feature metadata raises \<open>TypeError\<close> to the caller. Inside the
  \<^verbatim>\<open>try\<close>, \<open>featureFn()(device)\<close> is the call of the template on the device; every
  exception is caught and logged, and the function then returns \<open>None\<close>.
\<close>

definition check_feature :: "logger \<Rightarrow> device \<Rightarrow> string \<Rightarrow> feature \<Rightarrow> template \<Rightarrow> py_error + (setting option \<times> logger)" where
  "check_feature lg device nm featureId featureFn =
     (case features device of
        None \<Rightarrow> Inl TypeError
      | Some fs \<Rightarrow>
          (if featureId \<notin> fs then Inr (None, lg)
           else case setting_call featureFn device of
                  Inr detected \<Rightarrow>
                    Inr (detected, if debug_enabled lg then log_debug lg featureId detected else lg)
                | Inl e \<Rightarrow> Inr (None, log_error lg featureId e)))"

text \<open>
  The loop of \<^verbatim>\<open>check_feature_settings\<close> over the rows of a table. A setting object is
  true in a condition, \<open>None\<close> is false.
\<close>

fun check_feature_settings_loop :: "row list \<Rightarrow> logger \<Rightarrow> device \<Rightarrow> setting list \<Rightarrow> py_error + (setting list \<times> logger)" where
  "check_feature_settings_loop [] lg device already_known = Inr (already_known, lg)"
| "check_feature_settings_loop ((nm, featureId, featureFn, _, _) # rows) lg device already_known =
     (case (featureId, featureFn) of
        (Some fid, Some fn) \<Rightarrow>
          (if \<not> list_ex (\<lambda>s. name s = nm) already_known then
             (case check_feature lg device nm fid fn of
                Inl e \<Rightarrow> Inl e
              | Inr (Some setting, lg') \<Rightarrow>
                  check_feature_settings_loop rows lg' device (already_known @ [setting])
              | Inr (None, lg') \<Rightarrow> check_feature_settings_loop rows lg' device already_known)
           else check_feature_settings_loop rows lg device already_known)
      | _ \<Rightarrow> check_feature_settings_loop rows lg device already_known)"

text \<open>
  \<^verbatim>\<open>check_feature_settings\<close>, over a given table and over \<open>SETTINGS_TABLE\<close>. The result is
  the returned flag, the list \<open>already_known\<close> after the call, and the logger. A protocol
  version that is \<open>None\<close> or 0 is false in the condition.
\<close>

definition check_feature_settings_of :: "row list \<Rightarrow> logger \<Rightarrow> device \<Rightarrow> setting list \<Rightarrow> py_error + (bool \<times> setting list \<times> logger)" where
  "check_feature_settings_of table lg device already_known =
     (if features device = None \<or> \<not> online device then Inr (False, already_known, lg)
      else if protocol device \<noteq> None \<and> protocol device \<noteq> Some 0 \<and> the (protocol device) < 2
      then Inr (False, already_known, lg)
      else case check_feature_settings_loop table lg device already_known of
             Inl e \<Rightarrow> Inl e
           | Inr (known, lg') \<Rightarrow> Inr (True, known, lg'))"

definition check_feature_settings :: "logger \<Rightarrow> device \<Rightarrow> setting list \<Rightarrow> py_error + (bool \<times> setting list \<times> logger)" where
  "check_feature_settings = check_feature_settings_of SETTINGS_TABLE"

text \<open>\<^verbatim>\<open>check_feature_setting\<close>: the first setting detected for a name, if any.\<close>

fun check_feature_setting_loop :: "row list \<Rightarrow> logger \<Rightarrow> device \<Rightarrow> string \<Rightarrow> py_error + (setting option \<times> logger)" where
  "check_feature_setting_loop [] lg device setting_name = Inr (None, lg)"
| "check_feature_setting_loop ((nm, featureId, featureFn, _, _) # rows) lg device setting_name =
     (case (featureId, featureFn) of
        (Some fid, Some fn) \<Rightarrow>
          (if nm = setting_name then
             (case check_feature lg device nm fid fn of
                Inl e \<Rightarrow> Inl e
              | Inr (Some feature, lg') \<Rightarrow> Inr (Some feature, lg')
              | Inr (None, lg') \<Rightarrow> check_feature_setting_loop rows lg' device setting_name)
           else check_feature_setting_loop rows lg device setting_name)
      | _ \<Rightarrow> check_feature_setting_loop rows lg device setting_name)"

definition check_feature_setting :: "logger \<Rightarrow> device \<Rightarrow> string \<Rightarrow> py_error + (setting option \<times> logger)" where
  "check_feature_setting = check_feature_setting_loop SETTINGS_TABLE"

subsection \<open>Notions used to state the properties\<close>

text \<open>
  What \<^verbatim>\<open>check_feature\<close> returns for a row on a device with the feature set \<open>fs\<close>: the
  setting its constructor yields if the feature is advertised, and nothing if the feature
  is absent, the constructor yields \<open>None\<close> or it raises.
\<close>

definition detected_by :: "device \<Rightarrow> feature set \<Rightarrow> feature \<Rightarrow> template \<Rightarrow> setting option" where
  "detected_by d fs fid fn =
     (if fid \<in> fs then (case setting_call fn d of Inr detected \<Rightarrow> detected | Inl e \<Rightarrow> None) else None)"

text \<open>The list of settings after the loop over a table, apart from the logger.\<close>

fun known_after :: "row list \<Rightarrow> device \<Rightarrow> feature set \<Rightarrow> setting list \<Rightarrow> setting list" where
  "known_after [] d fs L = L"
| "known_after ((nm, fid, fn, reg, ident) # rows) d fs L =
     (case (fid, fn) of
        (Some f, Some t) \<Rightarrow>
          (if list_ex (\<lambda>s. name s = nm) L then known_after rows d fs L
           else known_after rows d fs (case detected_by d fs f t of Some s \<Rightarrow> L @ [s] | None \<Rightarrow> L))
      | _ \<Rightarrow> known_after rows d fs L)"

text \<open>
  A table whose constructors give their settings the name of their row, as those of
  \<open>SETTINGS_TABLE\<close> do.
\<close>

definition names_agree :: "row list \<Rightarrow> bool" where
  "names_agree tbl = (\<forall>nm fid t reg ident d s. (nm, fid, Some t, reg, ident) \<in> set tbl \<and>
      setting_call t d = Inr (Some s) \<longrightarrow> name s = nm)"

text \<open>
  A row is advertised by a feature set when it has a feature identifier in the set and a
  feature-based constructor; \<open>row_detects\<close> is the setting the constructor of a row
  yields on a device, as a list with no or one element.
\<close>

definition row_advertised :: "feature set \<Rightarrow> row \<Rightarrow> bool" where
  "row_advertised fs r =
     (case r of (nm, Some fid, Some fn, reg, ident) \<Rightarrow> fid \<in> fs | _ \<Rightarrow> False)"

definition row_detects :: "device \<Rightarrow> row \<Rightarrow> setting list" where
  "row_detects d r =
     (case r of
        (nm, Some fid, Some fn, reg, ident) \<Rightarrow>
          (case setting_call fn d of Inr (Some s) \<Rightarrow> [s] | _ \<Rightarrow> [])
      | _ \<Rightarrow> [])"

text \<open>
  The candidates for the choices of the platform, in the order in which the nested loops
  of the multiplatform callback meet them: for each entry of the table of operating
  systems, in its order, the descriptors whose bitmap has the bit of the entry, in their
  order, each as its platform with the formatted name of the operating system.
\<close>

definition os_candidates :: "(string \<times> nat) list \<Rightarrow> descriptor list \<Rightarrow> (nat \<times> string) list" where
  "os_candidates oss descriptors =
     concat (map (\<lambda>(os_name, os_bit).
        map (\<lambda>(platform, os_flags, low, high). (platform, os_name @ str_os_versions low high))
          (filter (\<lambda>(platform, os_flags, low, high). os_bit AND os_flags \<noteq> 0) descriptors)) oss)"

text \<open>
  Going through candidates and keeping one only if neither its platform nor its name is
  among those kept so far.
\<close>

fun keep_new :: "(nat \<times> string) list \<Rightarrow> (nat \<times> string) list \<Rightarrow> (nat \<times> string) list" where
  "keep_new [] kept = kept"
| "keep_new ((platform, os) # candidates) kept =
     (if platform \<in> fst ` set kept \<or> os \<in> snd ` set kept then keep_new candidates kept
      else keep_new candidates (kept @ [(platform, os)]))"

subsection \<open>Example devices\<close>

text \<open>
  An online device given by its features, its protocol version and its replies; the
  callbacks that are not embedded find nothing on it.
\<close>

definition example_device :: "feature set \<Rightarrow> rat option \<Rightarrow> (feature \<Rightarrow> nat \<Rightarrow> byte list \<Rightarrow> byte list option) \<Rightarrow> device" where
  "example_device fs p req =
     \<lparr>features = Some fs, online = True, protocol = p, feature_request = req,
      callback_result = (\<lambda>c. Inr None)\<rparr>"

definition no_reply :: "feature \<Rightarrow> nat \<Rightarrow> byte list \<Rightarrow> byte list option" where
  "no_reply f fn params = None"

text \<open>
  A device that holds a smart-shift record: it answers the read (function 0x00) with the
  record it holds, and acknowledges a write (function 0x10) by returning the record
  written, which is the record it holds from then on.
\<close>

definition smart_shift_device :: "byte list \<Rightarrow> device" where
  "smart_shift_device stored =
     example_device {F_SMART_SHIFT} (Some 2)
       (\<lambda>f fn params. if f = F_SMART_SHIFT \<and> fn = 0x00 then Some stored
                       else if f = F_SMART_SHIFT \<and> fn = 0x10 then Some params
                       else None)"

text \<open>Loggers without records, with debug records disabled and enabled.\<close>

definition quiet :: logger where
  "quiet = \<lparr>debug_enabled = False, records = []\<rparr>"

definition verbose :: logger where
  "verbose = \<lparr>debug_enabled = True, records = []\<rparr>"

text \<open>The settings that some constructors yield.\<close>

definition hi_res_scroll_setting :: setting where
  "hi_res_scroll_setting =
     \<lparr>setting_class = C_Setting, name = ''hi-res-scroll'',
      rw = FeatureRW F_HI_RES_SCROLLING 0x00 0x10 False,
      validator = BooleanV None None None,
      device_kinds = Some [DK_mouse, DK_trackball], persist = True\<rparr>"

definition smart_shift_setting :: setting where
  "smart_shift_setting =
     \<lparr>setting_class = C_Setting, name = ''smart-shift'',
      rw = SmartShiftRW F_SMART_SHIFT,
      validator = RangeV 0 50 1,
      device_kinds = Some [DK_mouse, DK_trackball], persist = True\<rparr>"

definition fn_swap_setting :: setting where
  "fn_swap_setting =
     \<lparr>setting_class = C_Setting, name = ''fn-swap'',
      rw = FeatureRW F_FN_INVERSION 0x00 0x10 False,
      validator = BooleanV None None None,
      device_kinds = Some [DK_keyboard], persist = True\<rparr>"

definition new_fn_swap_setting :: setting where
  "new_fn_swap_setting =
     \<lparr>setting_class = C_Setting, name = ''fn-swap'',
      rw = FeatureRW F_NEW_FN_INVERSION 0x00 0x10 False,
      validator = BooleanV None None None,
      device_kinds = Some [DK_keyboard], persist = True\<rparr>"

definition k375s_fn_swap_setting :: setting where
  "k375s_fn_swap_setting =
     \<lparr>setting_class = C_Setting, name = ''fn-swap'',
      rw = FeatureRW F_K375S_FN_INVERSION 0x00 0x10 False,
      validator = BooleanV (Some (RawBytes [0xFF, 0x01])) (Some (RawBytes [0xFF, 0x00])) None,
      device_kinds = Some [DK_keyboard], persist = True\<rparr>"

definition hires_inv_setting :: setting where
  "hires_inv_setting =
     \<lparr>setting_class = C_Setting, name = ''hires-smooth-invert'',
      rw = FeatureRW F_HIRES_WHEEL 0x10 0x20 False,
      validator = BooleanV (Some (RawInt 0x04)) None (Some (RawInt 0x04)),
      device_kinds = Some [DK_mouse, DK_trackball], persist = True\<rparr>"

definition hires_res_setting :: setting where
  "hires_res_setting =
     \<lparr>setting_class = C_Setting, name = ''hires-smooth-resolution'',
      rw = FeatureRW F_HIRES_WHEEL 0x10 0x20 False,
      validator = BooleanV (Some (RawInt 0x02)) None (Some (RawInt 0x02)),
      device_kinds = Some [DK_mouse, DK_trackball], persist = True\<rparr>"

text \<open>
  Devices with protocol 2.0 and no replies: a mouse with the features of two rows of the
  table, a mouse whose DPI list cannot be read, a keyboard with two of the features that
  swap the function keys, a keyboard with the first and the third of them, a mouse with
  the high-resolution wheel, which two rows of the table share. Then mice whose protocol
  version is unknown, 0 and 1.0.
\<close>

definition mouse_AC :: device where
  "mouse_AC = example_device {F_HI_RES_SCROLLING, F_SMART_SHIFT} (Some 2) no_reply"

definition mouse_bad_dpi :: device where
  "mouse_bad_dpi = example_device {F_HI_RES_SCROLLING, F_ADJUSTABLE_DPI} (Some 2) no_reply"

definition keyboard_fn_both :: device where
  "keyboard_fn_both = example_device {F_FN_INVERSION, F_NEW_FN_INVERSION} (Some 2) no_reply"

definition keyboard_fn_k375s :: device where
  "keyboard_fn_k375s = example_device {F_FN_INVERSION, F_K375S_FN_INVERSION} (Some 2) no_reply"

definition mouse_hires :: device where
  "mouse_hires = example_device {F_HIRES_WHEEL} (Some 2) no_reply"

definition mouse_unknown :: device where
  "mouse_unknown = example_device {F_HI_RES_SCROLLING} None no_reply"

definition mouse_zero :: device where
  "mouse_zero = example_device {F_HI_RES_SCROLLING} (Some 0) no_reply"

definition mouse_old :: device where
  "mouse_old = example_device {F_HI_RES_SCROLLING} (Some 1) no_reply"

text \<open>A value of the DPI list whose top three bits (of 16) are set marks a step.\<close>

definition step_marked :: "nat \<Rightarrow> bool" where
  "step_marked v = (drop_bit 13 v = 7)"

text \<open>
  A mouse that answers the request for its DPI list with the given reply. The replies:
  the range from 800 to 3200 in steps of 200; the list 400, 800, 1600, closed by a zero
  that another value follows.
\<close>

definition dpi_device :: "byte list \<Rightarrow> device" where
  "dpi_device reply =
     example_device {F_ADJUSTABLE_DPI} (Some 2)
       (\<lambda>f fn params. if f = F_ADJUSTABLE_DPI \<and> fn = 0x10 then Some reply else None)"

definition dpi_reply_range :: "byte list" where
  "dpi_reply_range = [0, 0x03, 0x20, 0xE0, 0xC8, 0x0C, 0x80, 0, 0, 0, 0, 0, 0, 0, 0, 0]"

definition dpi_reply_list :: "byte list" where
  "dpi_reply_list = [0, 0x01, 0x90, 0x03, 0x20, 0x06, 0x40, 0, 0, 0x0C, 0x80, 0, 0, 0, 0, 0]"

text \<open>The seven values that the DPI callback unpacks from a reply of at least 15 bytes.\<close>

definition dpi_values :: "byte list \<Rightarrow> nat list" where
  "dpi_values reply =
     [H (reply!1) (reply!2), H (reply!3) (reply!4), H (reply!5) (reply!6), H (reply!7) (reply!8),
      H (reply!9) (reply!10), H (reply!11) (reply!12), H (reply!13) (reply!14)]"

text \<open>
  More replies: 800 and a step of 200 with no second literal; 800 and a zero step
  (0xE000); 800, a zero step and 3200; 800, a zero step, a step of 200 and 3200; 800, a
  step of 500 (0xE1F4) and 3200; 800, a zero step, 1600 and 3200; 800 alone.
\<close>

definition dpi_reply_step_alone :: "byte list" where
  "dpi_reply_step_alone = [0, 0x03, 0x20, 0xE0, 0xC8, 0, 0, 0, 0, 0, 0, 0, 0, 0, 0, 0]"

definition dpi_reply_zero_step :: "byte list" where
  "dpi_reply_zero_step = [0, 0x03, 0x20, 0xE0, 0x00, 0, 0, 0, 0, 0, 0, 0, 0, 0, 0, 0]"

definition dpi_reply_zero_step_pair :: "byte list" where
  "dpi_reply_zero_step_pair = [0, 0x03, 0x20, 0xE0, 0x00, 0x0C, 0x80, 0, 0, 0, 0, 0, 0, 0, 0, 0]"

definition dpi_reply_two_steps :: "byte list" where
  "dpi_reply_two_steps = [0, 0x03, 0x20, 0xE0, 0x00, 0xE0, 0xC8, 0x0C, 0x80, 0, 0, 0, 0, 0, 0, 0]"

definition dpi_reply_step_500 :: "byte list" where
  "dpi_reply_step_500 = [0, 0x03, 0x20, 0xE1, 0xF4, 0x0C, 0x80, 0, 0, 0, 0, 0, 0, 0, 0, 0]"

definition dpi_reply_zero_step_three :: "byte list" where
  "dpi_reply_zero_step_three = [0, 0x03, 0x20, 0xE0, 0x00, 0x06, 0x40, 0x0C, 0x80, 0, 0, 0, 0, 0, 0, 0]"

definition dpi_reply_single :: "byte list" where
  "dpi_reply_single = [0, 0x03, 0x20, 0, 0, 0, 0, 0, 0, 0, 0, 0, 0, 0, 0, 0]"


text \<open>A reply that begins with a step of 200, followed by 800 and 3200.\<close>

definition dpi_reply_step_first :: "byte list" where
  "dpi_reply_step_first = [0, 0xE0, 0xC8, 0x03, 0x20, 0x0C, 0x80, 0, 0, 0, 0, 0, 0, 0, 0, 0]"

text \<open>
  A device with the multiplatform feature that can be set, given by the replies to the
  requests for its descriptors.
\<close>

definition multiplatform_device :: "byte list list \<Rightarrow> device" where
  "multiplatform_device descriptors =
     example_device {F_MULTIPLATFORM} (Some 2)
       (\<lambda>f fn params.
          if f = F_MULTIPLATFORM \<and> fn = 0x00 \<and> params = []
          then Some [0x02, 0, of_nat (length descriptors)]
          else if f = F_MULTIPLATFORM \<and> fn = 0x10 \<and> length params = 1
                  \<and> unat (hd params) < length descriptors
          then Some (descriptors ! unat (hd params))
          else None)"

text \<open>
  Descriptors of platform 0 with the bits of Linux and Windows, and of platform 3 with
  the bits of MacOS and Linux and the versions 10.0 to 11.2. Then descriptors with one
  bit and no versions: platform 0 with Windows, platforms 1 and 2 with Linux.
\<close>

definition descriptor_linux_windows :: "byte list" where
  "descriptor_linux_windows = [0, 0, 0x05, 0x00, 0, 0, 0, 0]"

definition descriptor_macos_linux :: "byte list" where
  "descriptor_macos_linux = [3, 0, 0x24, 0x00, 0x0A, 0x00, 0x0B, 0x02]"

definition descriptor_windows :: "byte list" where
  "descriptor_windows = [0, 0, 0x01, 0x00, 0, 0, 0, 0]"

definition descriptor_linux :: "byte list" where
  "descriptor_linux = [1, 0, 0x04, 0x00, 0, 0, 0, 0]"

definition descriptor_linux_again :: "byte list" where
  "descriptor_linux_again = [2, 0, 0x04, 0x00, 0, 0, 0, 0]"

section \<open>Properties\<close>

subsection \<open>Smart shift\<close>

lemma bytes2int_single: "bytes2int [b] = unat b"
  by (simp add: bytes2int_def)

lemma unat_byte_of_nat: "v < 256 \<Longrightarrow> unat (of_nat v :: byte) = v"
  by (simp add: unat_of_nat)

lemma write_record:
  assumes "bytes2int data_bytes = v" "v \<le> 50"
  shows "SmartShiftRW_write device data_bytes =
     feature_request device F_SMART_SHIFT 0x10
       (if v = 0 then [1, 0, 0] else if v = 50 then [2, 255, 255] else [2, of_nat v, of_nat v])"
  using assms
  by (simp add: SmartShiftRW_write_def FeatureRW_write_def MIN_SMART_SHIFT_VALUE_def
      MAX_SMART_SHIFT_VALUE_def Let_def)

lemma read_record:
  assumes "feature_request device F_SMART_SHIFT 0x00 [] = Some (m # t # rest)"
  shows "SmartShiftRW_read device = Inr (if m = 1 then [0] else [of_nat (min (unat t) 50)])"
  using assms
  apply (simp add: SmartShiftRW_read_def FeatureRW_read_def MIN_SMART_SHIFT_VALUE_def
      MAX_SMART_SHIFT_VALUE_def Let_def bytes2int_single)
  apply (auto simp: word_unat_eq_iff min_def)
  done

lemma smart_shift_device_request:
  "feature_request (smart_shift_device stored) F_SMART_SHIFT 0x00 [] = Some stored"
  "feature_request (smart_shift_device stored) F_SMART_SHIFT 0x10 params = Some params"
  by (simp_all add: smart_shift_device_def example_device_def)

lemma read_after_write:
  assumes "bytes2int data_bytes = v" "v \<le> 50"
  shows "\<exists>r. SmartShiftRW_write (smart_shift_device stored) data_bytes = Some r
           \<and> SmartShiftRW_read (smart_shift_device r) = Inr [of_nat v]"
proof -
  let ?r = "if v = 0 then [1, 0, 0] else if v = 50 then [2, 255, 255] else [2, of_nat v, of_nat v :: byte]"
  have v: "v < 256" using assms by simp
  have w: "(of_nat v :: byte) = 1 \<longleftrightarrow> v = 1"
    using v by (simp add: word_unat_eq_iff unat_byte_of_nat)
  have wr: "SmartShiftRW_write (smart_shift_device stored) data_bytes = Some ?r"
    unfolding write_record[OF assms] by (rule smart_shift_device_request(2))
  have rd: "SmartShiftRW_read (smart_shift_device ?r) = Inr [of_nat v]"
  proof (cases "v = 0")
    case True
    then show ?thesis
      using read_record[of "smart_shift_device [1, 0, 0]" 1 0 "[0]"]
      by (simp add: smart_shift_device_request)
  next
    case nz: False
    show ?thesis
    proof (cases "v = 50")
      case True
      then show ?thesis
        using read_record[of "smart_shift_device [2, 255, 255]" 2 255 "[255]"]
        by (simp add: smart_shift_device_request)
    next
      case False
      then show ?thesis
        using nz assms(2) v read_record[of "smart_shift_device [2, of_nat v, of_nat v]" 2 "of_nat v" "[of_nat v]"]
        by (simp add: smart_shift_device_request unat_byte_of_nat min_def)
    qed
  qed
  show ?thesis using wr rd by blast
qed

text \<open>
  Claim C3. For a threshold \<open>v\<close> from 0 to 50 (the value of the data bytes handed to the
  writer), the writer sends to function 0x10 of the smart-shift feature the record
  (1, 0, 0) if \<open>v = 0\<close>, (2, 255, 255) if \<open>v = 50\<close> and (2, v, v) otherwise, and returns the
  reply. The reader maps a record whose mode byte is 1 to 0 and every other record to the
  minimum of its threshold byte and 50. Hence on a device that holds the record written
  to it, a read after the write of \<open>v\<close> gives \<open>v\<close>.
\<close>

theorem C3_smart_shift:
  "(\<forall>device data_bytes v. bytes2int data_bytes = v \<and> v \<le> 50 \<longrightarrow>
      SmartShiftRW_write device data_bytes =
        feature_request device F_SMART_SHIFT 0x10
          (if v = 0 then [1, 0, 0] else if v = 50 then [2, 255, 255] else [2, of_nat v, of_nat v]))
   \<and> (\<forall>device m t rest. feature_request device F_SMART_SHIFT 0x00 [] = Some (m # t # rest) \<longrightarrow>
        SmartShiftRW_read device = Inr (if m = 1 then [0] else [of_nat (min (unat t) 50)]))
   \<and> (\<forall>stored data_bytes v. bytes2int data_bytes = v \<and> v \<le> 50 \<longrightarrow>
        (\<exists>r. SmartShiftRW_write (smart_shift_device stored) data_bytes = Some r
           \<and> SmartShiftRW_read (smart_shift_device r) = Inr [of_nat v]))"
proof -
  have a: "SmartShiftRW_write device data_bytes =
        feature_request device F_SMART_SHIFT 0x10
          (if v = 0 then [1, 0, 0] else if v = 50 then [2, 255, 255] else [2, of_nat v, of_nat v])"
    if "bytes2int data_bytes = v \<and> v \<le> 50" for device :: device and data_bytes v
    using that write_record by blast
  have b: "SmartShiftRW_read device = Inr (if m = 1 then [0] else [of_nat (min (unat t) 50)])"
    if "feature_request device F_SMART_SHIFT 0x00 [] = Some (m # t # rest)"
    for device :: device and m t rest
    using that by (rule read_record)
  have c: "\<exists>r. SmartShiftRW_write (smart_shift_device stored) data_bytes = Some r
           \<and> SmartShiftRW_read (smart_shift_device r) = Inr [of_nat v]"
    if "bytes2int data_bytes = v \<and> v \<le> 50" for stored data_bytes v
    using that read_after_write by blast
  show ?thesis
    apply (intro conjI allI impI)
    subgoal by (rule a)
    subgoal by (rule b)
    subgoal by (rule c)
    done
qed

text \<open>
  The thresholds 0, 50 and 25 go to the device as (1, 0, 0), (2, 255, 255) and
  (2, 25, 25), and are read back from it.
\<close>

theorem C3_smart_shift_witness:
  "SmartShiftRW_write (smart_shift_device [2, 10, 10]) [0] = Some [1, 0, 0]
   \<and> SmartShiftRW_write (smart_shift_device [2, 10, 10]) [50] = Some [2, 255, 255]
   \<and> SmartShiftRW_write (smart_shift_device [2, 10, 10]) [25] = Some [2, 25, 25]
   \<and> SmartShiftRW_read (smart_shift_device [1, 7, 7]) = Inr [0]
   \<and> SmartShiftRW_read (smart_shift_device [2, 255, 255]) = Inr [50]
   \<and> SmartShiftRW_read (smart_shift_device [2, 25, 25]) = Inr [25]
   \<and> (\<exists>r. SmartShiftRW_write (smart_shift_device [2, 10, 10]) [0] = Some r
         \<and> SmartShiftRW_read (smart_shift_device r) = Inr [0])
   \<and> (\<exists>r. SmartShiftRW_write (smart_shift_device [2, 10, 10]) [50] = Some r
         \<and> SmartShiftRW_read (smart_shift_device r) = Inr [50])
   \<and> (\<exists>r. SmartShiftRW_write (smart_shift_device [2, 10, 10]) [25] = Some r
         \<and> SmartShiftRW_read (smart_shift_device r) = Inr [25])"
proof -
  note t = C3_smart_shift
  let ?d = "smart_shift_device [2, 10, 10]"
  have w0: "SmartShiftRW_write ?d [0] = Some [1, 0, 0]"
    using t[THEN conjunct1, rule_format, of "[0]" 0 ?d]
    by (simp add: bytes2int_def smart_shift_device_def example_device_def)
  have w50: "SmartShiftRW_write ?d [50] = Some [2, 255, 255]"
    using t[THEN conjunct1, rule_format, of "[50]" 50 ?d]
    by (simp add: bytes2int_def smart_shift_device_def example_device_def)
  have w25: "SmartShiftRW_write ?d [25] = Some [2, 25, 25]"
    using t[THEN conjunct1, rule_format, of "[25]" 25 ?d]
    by (simp add: bytes2int_def smart_shift_device_def example_device_def)
  have r1: "SmartShiftRW_read (smart_shift_device [1, 7, 7]) = Inr [0]"
    using t[THEN conjunct2, THEN conjunct1, rule_format, of "smart_shift_device [1, 7, 7]" 1 7 "[7]"]
    by (simp add: smart_shift_device_def example_device_def)
  have r2: "SmartShiftRW_read (smart_shift_device [2, 255, 255]) = Inr [50]"
    using t[THEN conjunct2, THEN conjunct1, rule_format, of "smart_shift_device [2, 255, 255]" 2 255 "[255]"]
    by (simp add: smart_shift_device_def example_device_def)
  have r3: "SmartShiftRW_read (smart_shift_device [2, 25, 25]) = Inr [25]"
    using t[THEN conjunct2, THEN conjunct1, rule_format, of "smart_shift_device [2, 25, 25]" 2 25 "[25]"]
    by (simp add: smart_shift_device_def example_device_def)
  have d0: "\<exists>r. SmartShiftRW_write ?d [0] = Some r \<and> SmartShiftRW_read (smart_shift_device r) = Inr [0]"
    using t[THEN conjunct2, THEN conjunct2, rule_format, of "[0]" 0 "[2, 10, 10]"]
    by (simp add: bytes2int_def)
  have d50: "\<exists>r. SmartShiftRW_write ?d [50] = Some r \<and> SmartShiftRW_read (smart_shift_device r) = Inr [50]"
    using t[THEN conjunct2, THEN conjunct2, rule_format, of "[50]" 50 "[2, 10, 10]"]
    by (simp add: bytes2int_def)
  have d25: "\<exists>r. SmartShiftRW_write ?d [25] = Some r \<and> SmartShiftRW_read (smart_shift_device r) = Inr [25]"
    using t[THEN conjunct2, THEN conjunct2, rule_format, of "[25]" 25 "[2, 10, 10]"]
    by (simp add: bytes2int_def)
  show ?thesis using w0 w50 w25 r1 r2 r3 d0 d50 d25 by blast
qed

subsection \<open>Discovery of settings\<close>

lemma check_feature_Some:
  assumes "features d = Some fs"
  shows "check_feature lg d nm fid fn =
     Inr (if fid \<in> fs then
            (case setting_call fn d of
               Inr detected \<Rightarrow> (detected, if debug_enabled lg then log_debug lg fid detected else lg)
             | Inl e \<Rightarrow> (None, log_error lg fid e))
          else (None, lg))"
  using assms by (simp add: check_feature_def split: sum.splits)

lemma check_feature_detected:
  assumes "features d = Some fs"
  shows "\<exists>lg'. check_feature lg d nm fid fn = Inr (detected_by d fs fid fn, lg')
           \<and> debug_enabled lg' = debug_enabled lg
           \<and> (\<exists>more. records lg' = records lg @ more)"
  using assms
  by (auto simp: check_feature_Some detected_by_def log_debug_def log_error_def split: sum.splits)

lemma loop_skip:
  "fid = None \<or> fn = None \<or> list_ex (\<lambda>s. name s = nm) L \<Longrightarrow>
   check_feature_settings_loop ((nm, fid, fn, reg, ident) # rows) lg d L =
   check_feature_settings_loop rows lg d L"
  by (auto split: option.splits)

lemma loop_probe:
  "\<not> list_ex (\<lambda>s. name s = nm) L \<Longrightarrow>
   check_feature_settings_loop ((nm, Some fid, Some fn, reg, ident) # rows) lg d L =
     (case check_feature lg d nm fid fn of
        Inl e \<Rightarrow> Inl e
      | Inr (Some setting, lg') \<Rightarrow> check_feature_settings_loop rows lg' d (L @ [setting])
      | Inr (None, lg') \<Rightarrow> check_feature_settings_loop rows lg' d L)"
  by simp

lemma loop_probe_Some:
  assumes "features d = Some fs" "\<not> list_ex (\<lambda>s. name s = nm) L"
  shows "\<exists>lg'. check_feature_settings_loop ((nm, Some fid, Some fn, reg, ident) # rows) lg d L =
           check_feature_settings_loop rows lg' d
             (case detected_by d fs fid fn of Some s \<Rightarrow> L @ [s] | None \<Rightarrow> L)
         \<and> debug_enabled lg' = debug_enabled lg
         \<and> (\<exists>more. records lg' = records lg @ more)"
proof -
  obtain lg' where c: "check_feature lg d nm fid fn = Inr (detected_by d fs fid fn, lg')"
    and l: "debug_enabled lg' = debug_enabled lg" "\<exists>more. records lg' = records lg @ more"
    using check_feature_detected[OF assms(1)] by blast
  have "check_feature_settings_loop ((nm, Some fid, Some fn, reg, ident) # rows) lg d L =
           check_feature_settings_loop rows lg' d
             (case detected_by d fs fid fn of Some s \<Rightarrow> L @ [s] | None \<Rightarrow> L)"
    unfolding loop_probe[OF assms(2)] c by (simp split: option.splits)
  then show ?thesis using l by blast
qed

lemma known_skip:
  "fid = None \<or> fn = None \<or> list_ex (\<lambda>s. name s = nm) L \<Longrightarrow>
   known_after ((nm, fid, fn, reg, ident) # rows) d fs L = known_after rows d fs L"
  by (auto split: option.splits)

lemma known_probe:
  "\<not> list_ex (\<lambda>s. name s = nm) L \<Longrightarrow>
   known_after ((nm, Some f, Some t, reg, ident) # rows) d fs L =
   known_after rows d fs (case detected_by d fs f t of Some s \<Rightarrow> L @ [s] | None \<Rightarrow> L)"
  by simp

lemma loop_known:
  assumes "features d = Some fs"
  shows "\<exists>lg'. check_feature_settings_loop tbl lg d L = Inr (known_after tbl d fs L, lg')
           \<and> debug_enabled lg' = debug_enabled lg
           \<and> (\<exists>more. records lg' = records lg @ more)"
proof (induction tbl arbitrary: lg L)
  case Nil
  show ?case by simp
next
  case (Cons r rows)
  obtain nm fid fn reg ident where r: "r = (nm, fid, fn, reg, ident)" by (cases r)
  show ?case
  proof (cases "fid = None \<or> fn = None \<or> list_ex (\<lambda>s. name s = nm) L")
    case True
    then show ?thesis unfolding r using Cons.IH[of lg L] by (simp only: loop_skip known_skip)
  next
    case False
    then obtain f t where ft: "fid = Some f" "fn = Some t" and nl: "\<not> list_ex (\<lambda>s. name s = nm) L" by auto
    let ?L1 = "case detected_by d fs f t of Some s \<Rightarrow> L @ [s] | None \<Rightarrow> L"
    obtain lg1 where s1: "check_feature_settings_loop ((nm, Some f, Some t, reg, ident) # rows) lg d L =
           check_feature_settings_loop rows lg1 d ?L1"
      and d1: "debug_enabled lg1 = debug_enabled lg" and m1: "\<exists>more. records lg1 = records lg @ more"
      using loop_probe_Some[OF assms nl, of f t reg ident rows lg] by blast
    obtain lg' where s2: "check_feature_settings_loop rows lg1 d ?L1 = Inr (known_after rows d fs ?L1, lg')"
      and d2: "debug_enabled lg' = debug_enabled lg1" and m2: "\<exists>more. records lg' = records lg1 @ more"
      using Cons.IH[of lg1 ?L1] by blast
    have "\<exists>more. records lg' = records lg @ more" using m1 m2 by auto
    then show ?thesis unfolding r ft known_probe[OF nl] s1 s2 using d1 d2 by auto
  qed
qed

lemma known_append:
  "known_after (xs @ ys) d fs L = known_after ys d fs (known_after xs d fs L)"
proof (induction xs arbitrary: L)
  case Nil show ?case by simp
next
  case (Cons r rows)
  obtain nm fid fn reg ident where r: "r = (nm, fid, fn, reg, ident)" by (cases r)
  show ?case unfolding r using Cons.IH by (auto split: option.splits)
qed

lemma known_extends: "\<exists>new. known_after tbl d fs L = L @ new"
proof (induction tbl arbitrary: L)
  case Nil show ?case by simp
next
  case (Cons r rows)
  obtain nm fid fn reg ident where r: "r = (nm, fid, fn, reg, ident)" by (cases r)
  show ?case
  proof (cases "fid = None \<or> fn = None \<or> list_ex (\<lambda>s. name s = nm) L")
    case True
    then show ?thesis unfolding r using Cons.IH[of L] by (simp only: known_skip)
  next
    case False
    then obtain f t where ft: "fid = Some f" "fn = Some t" and nl: "\<not> list_ex (\<lambda>s. name s = nm) L" by auto
    show ?thesis
    proof (cases "detected_by d fs f t")
      case None
      then show ?thesis unfolding r ft known_probe[OF nl] using Cons.IH[of L] by simp
    next
      case (Some s)
      then show ?thesis unfolding r ft known_probe[OF nl] using Cons.IH[of "L @ [s]"] by auto
    qed
  qed
qed

lemma names_agree_Cons: "names_agree (r # rows) \<Longrightarrow> names_agree rows"
  unfolding names_agree_def by (meson list.set_intros(2))

lemma detected_name:
  "names_agree ((nm, fid, Some t, reg, ident) # rows) \<Longrightarrow> detected_by d fs f t = Some s \<Longrightarrow> name s = nm"
  unfolding names_agree_def detected_by_def
  by (fastforce split: if_splits sum.splits)

lemma list_ex_name: "list_ex (\<lambda>s. name s = nm) L \<longleftrightarrow> nm \<in> name ` set L"
  by (auto simp: list_ex_iff)

lemma known_fixpoint:
  assumes "names_agree tbl" "name ` set (known_after tbl d fs L) \<subseteq> name ` set M"
  shows "known_after tbl d fs M = M"
  using assms
proof (induction tbl arbitrary: L M)
  case Nil show ?case by simp
next
  case (Cons r rows)
  obtain nm fid fn reg ident where r: "r = (nm, fid, fn, reg, ident)" by (cases r)
  have na: "names_agree rows" using Cons.prems(1) names_agree_Cons by blast
  have sub: "name ` set L \<subseteq> name ` set M"
    using known_extends[of "r # rows" d fs L] Cons.prems(2) by auto
  show ?case
  proof (cases "fid = None \<or> fn = None")
    case True
    then have "known_after (r # rows) d fs L = known_after rows d fs L" "known_after (r # rows) d fs M = known_after rows d fs M"
      unfolding r by (auto split: option.splits)
    then show ?thesis using Cons.IH[OF na, of L M] Cons.prems(2) by simp
  next
    case False
    then obtain f t where ft: "fid = Some f" "fn = Some t" by auto
    show ?thesis
    proof (cases "list_ex (\<lambda>s. name s = nm) M")
      case inM: True
      then have m: "known_after (r # rows) d fs M = known_after rows d fs M"
        unfolding r by (auto split: option.splits)
      show ?thesis
      proof (cases "list_ex (\<lambda>s. name s = nm) L")
        case True
        then have "known_after (r # rows) d fs L = known_after rows d fs L"
          unfolding r by (auto split: option.splits)
        then show ?thesis using m Cons.IH[OF na, of L M] Cons.prems(2) by simp
      next
        case False
        let ?L1 = "case detected_by d fs f t of Some s \<Rightarrow> L @ [s] | None \<Rightarrow> L"
        have "known_after (r # rows) d fs L = known_after rows d fs ?L1"
          unfolding r ft by (rule known_probe[OF False])
        then show ?thesis using m Cons.IH[OF na, of ?L1 M] Cons.prems(2) by simp
      qed
    next
      case notM: False
      then have notL: "\<not> list_ex (\<lambda>s. name s = nm) L" using sub by (auto simp: list_ex_name)
      let ?L1 = "case detected_by d fs f t of Some s \<Rightarrow> L @ [s] | None \<Rightarrow> L"
      have l: "known_after (r # rows) d fs L = known_after rows d fs ?L1"
        unfolding r ft by (rule known_probe[OF notL])
      have none: "detected_by d fs f t = None"
      proof (rule ccontr)
        assume "detected_by d fs f t \<noteq> None"
        then obtain s where s: "detected_by d fs f t = Some s" by auto
        then have "name s = nm" using Cons.prems(1) unfolding r ft by (rule detected_name[rotated])
        moreover have "s \<in> set (known_after rows d fs ?L1)"
          using known_extends[of rows d fs ?L1] s by auto
        ultimately have "nm \<in> name ` set M" using Cons.prems(2) l by auto
        then show False using notM by (simp add: list_ex_name)
      qed
      have "known_after (r # rows) d fs M = known_after rows d fs M"
        unfolding r ft known_probe[OF notM] none by simp
      then show ?thesis using Cons.IH[OF na, of ?L1 M] Cons.prems(2) l by simp
    qed
  qed
qed

lemma known_idempotent:
  "names_agree tbl \<Longrightarrow> known_after tbl d fs (known_after tbl d fs L) = known_after tbl d fs L"
  by (rule known_fixpoint[of tbl d fs L]) simp_all

lemma known_new_names:
  assumes "names_agree tbl"
  shows "\<exists>new. known_after tbl d fs L = L @ new \<and> distinct (map name new) \<and> name ` set new \<inter> name ` set L = {}"
  using assms
proof (induction tbl arbitrary: L)
  case Nil show ?case by simp
next
  case (Cons r rows)
  obtain nm fid fn reg ident where r: "r = (nm, fid, fn, reg, ident)" by (cases r)
  have na: "names_agree rows" using Cons.prems(1) names_agree_Cons by blast
  show ?case
  proof (cases "fid = None \<or> fn = None \<or> list_ex (\<lambda>s. name s = nm) L")
    case True
    then show ?thesis unfolding r using Cons.IH[OF na, of L] by (simp only: known_skip)
  next
    case False
    then obtain f t where ft: "fid = Some f" "fn = Some t" and nl: "\<not> list_ex (\<lambda>s. name s = nm) L" by auto
    show ?thesis
    proof (cases "detected_by d fs f t")
      case None
      then show ?thesis unfolding r ft known_probe[OF nl] using Cons.IH[OF na, of L] by simp
    next
      case (Some s)
      have ns: "name s = nm" using Cons.prems(1) Some unfolding r ft by (rule detected_name)
      obtain new where n: "known_after rows d fs (L @ [s]) = (L @ [s]) @ new" "distinct (map name new)"
         "name ` set new \<inter> name ` set (L @ [s]) = {}"
        using Cons.IH[OF na, of "L @ [s]"] by blast
      have "known_after (r # rows) d fs L = L @ (s # new)"
        unfolding r ft known_probe[OF nl] Some using n(1) by simp
      moreover have "distinct (map name (s # new))" using n(2,3) by auto
      moreover have "name ` set (s # new) \<inter> name ` set L = {}"
        using n(3) nl ns by (auto simp: list_ex_name)
      ultimately show ?thesis by blast
    qed
  qed
qed

lemma setting_call_name:
  "setting_call (Template c n r k dk p) d = Inr (Some s) \<Longrightarrow> name s = n"
  by (auto simp: setting_call_def bind_def split: codec.splits sum.splits option.splits if_splits)

lemmas template_defs =
  feature_fn_swap_def feature_new_fn_swap_def feature_k375s_fn_swap_def feature_backlight2_def
  feature_hi_res_scroll_def feature_lowres_smooth_scroll_def feature_hires_smooth_invert_def
  feature_hires_smooth_resolution_def feature_smart_shift_def feature_adjustable_dpi_def
  feature_pointer_speed_def feature_reprogrammable_keys_def feature_disable_keyboard_keys_def
  feature_multiplatform_def feature_dualplatform_def feature_change_host_def
  feature_thumb_mode_def feature_thumb_invert_def feature_gesture2_gestures_def
  feature_gesture2_params_def
  Setting_def Settings_def BitFieldSetting_def BitFieldOMSetting_def LongSettings_def

lemma names_agree_SETTINGS_TABLE: "names_agree SETTINGS_TABLE"
  unfolding names_agree_def SETTINGS_TABLE_def S_def
  by (auto simp: template_defs Let_def dest: setting_call_name)

lemma known_advertised:
  assumes "names_agree tbl" "distinct (map fst (filter (row_advertised fs) tbl))"
    "fst ` set (filter (row_advertised fs) tbl) \<inter> name ` set L = {}"
  shows "known_after tbl d fs L = L @ concat (map (row_detects d) (filter (row_advertised fs) tbl))"
  using assms
proof (induction tbl arbitrary: L)
  case Nil show ?case by simp
next
  case (Cons r rows)
  obtain nm fid fn reg ident where r: "r = (nm, fid, fn, reg, ident)" by (cases r)
  have na: "names_agree rows" using Cons.prems(1) names_agree_Cons by blast
  show ?case
  proof (cases "row_advertised fs r")
    case False
    have dist: "distinct (map fst (filter (row_advertised fs) rows))"
       and disj: "fst ` set (filter (row_advertised fs) rows) \<inter> name ` set L = {}"
      using Cons.prems(2,3) False by simp_all
    have "known_after (r # rows) d fs L = known_after rows d fs L"
      using False unfolding r
      by (auto simp: row_advertised_def detected_by_def split: option.splits)
    then show ?thesis using Cons.IH[OF na dist disj] False by simp
  next
    case True
    then obtain f t where ft: "fid = Some f" "fn = Some t" and f: "f \<in> fs"
      unfolding r by (auto simp: row_advertised_def split: option.splits)
    have nl: "\<not> list_ex (\<lambda>s. name s = nm) L"
      using Cons.prems(3) True unfolding r by (auto simp: list_ex_name)
    have dist: "distinct (map fst (filter (row_advertised fs) rows))"
      and nm_fresh: "nm \<notin> fst ` set (filter (row_advertised fs) rows)"
      using Cons.prems(2) True unfolding r by auto
    let ?new = "row_detects d r"
    have det: "(case detected_by d fs f t of Some s \<Rightarrow> L @ [s] | None \<Rightarrow> L) = L @ ?new"
      unfolding r ft using f
      by (auto simp: detected_by_def row_detects_def split: sum.splits option.splits)
    have nms: "name ` set ?new \<subseteq> {nm}"
    proof
      fix x assume "x \<in> name ` set ?new"
      then obtain s where s: "s \<in> set ?new" "x = name s" by auto
      then have "setting_call t d = Inr (Some s)"
        unfolding r ft row_detects_def by (auto split: sum.splits option.splits)
      moreover have "(nm, Some f, Some t, reg, ident) \<in> set (r # rows)"
        unfolding r ft by simp
      ultimately have "name s = nm"
        using Cons.prems(1) unfolding names_agree_def by blast
      then show "x \<in> {nm}" using s by simp
    qed
    have disj: "fst ` set (filter (row_advertised fs) rows) \<inter> name ` set (L @ ?new) = {}"
      using Cons.prems(3) nm_fresh nms True by auto
    have "known_after (r # rows) d fs L = known_after rows d fs (L @ ?new)"
      unfolding r ft known_probe[OF nl] using det unfolding r ft by simp
    then show ?thesis using Cons.IH[OF na dist disj] True by simp
  qed
qed

lemma loop_append:
  "check_feature_settings_loop (xs @ ys) lg d L =
     (case check_feature_settings_loop xs lg d L of
        Inl e \<Rightarrow> Inl e
      | Inr (L1, lg1) \<Rightarrow> check_feature_settings_loop ys lg1 d L1)"
proof (induction xs arbitrary: lg L)
  case Nil show ?case by simp
next
  case (Cons r rows)
  obtain nm fid fn reg ident where r: "r = (nm, fid, fn, reg, ident)" by (cases r)
  show ?case unfolding r using Cons.IH
    by (auto split: option.splits sum.splits prod.splits)
qed

lemma known_raising_row:
  assumes "setting_call t d = Inl e"
  shows "known_after (pre @ (nm, Some f, Some t, reg, ident) # post) d fs L = known_after (pre @ post) d fs L"
proof -
  have "detected_by d fs f t = None" using assms by (simp add: detected_by_def)
  then have "known_after ((nm, Some f, Some t, reg, ident) # post) d fs M = known_after post d fs M" for M
    by simp
  then show ?thesis by (simp add: known_append)
qed

lemma loop_records:
  assumes "features d = Some fs" "check_feature_settings_loop tbl lg d L = Inr (L', lg')"
  shows "\<exists>more. records lg' = records lg @ more"
  using loop_known[OF assms(1), of tbl lg L] assms(2) by auto

lemma raising_row_logged:
  assumes "features d = Some fs" "setting_call t d = Inl e"
    and "check_feature_settings_loop pre lg d L = Inr (L1, lg1)"
    and "f \<in> fs" "\<not> list_ex (\<lambda>s. name s = nm) L1"
    and "check_feature_settings_loop (pre @ (nm, Some f, Some t, reg, ident) # post) lg d L = Inr (L', lg')"
  shows "LogError f e \<in> set (records lg')"
proof -
  have cf: "check_feature lg1 d nm f t = Inr (None, log_error lg1 f e)"
    using assms(1,2,4) by (simp add: check_feature_Some)
  have "check_feature_settings_loop post (log_error lg1 f e) d L1 = Inr (L', lg')"
    using assms(6) unfolding loop_append assms(3) using assms(5) cf by simp
  then obtain more where "records lg' = records (log_error lg1 f e) @ more"
    using loop_records[OF assms(1)] by blast
  then show ?thesis by (simp add: log_error_def)
qed

lemmas string_defs =
  HAND_DETECTION_def SMOOTH_SCROLL_def SIDE_SCROLL_def HI_RES_SCROLL_def LOW_RES_SCROLL_def
  HIRES_INV_def HIRES_RES_def FN_SWAP_def DPI_def POINTER_SPEED_def SMART_SHIFT_def
  BACKLIGHT_def REPROGRAMMABLE_KEYS_def DISABLE_KEYS_def PLATFORM_def CHANGE_HOST_def
  THUMB_SCROLL_MODE_def THUMB_SCROLL_INVERT_def GESTURE2_GESTURES_def GESTURE2_PARAMS_def

lemma gate_open:
  assumes "features d = Some fs" "online d"
    "protocol d = None \<or> protocol d = Some 0 \<or> 2 \<le> the (protocol d)"
  shows "\<exists>lg'. check_feature_settings_of tbl lg d L = Inr (True, known_after tbl d fs L, lg')
          \<and> debug_enabled lg' = debug_enabled lg \<and> (\<exists>more. records lg' = records lg @ more)"
proof -
  obtain lg' where l: "check_feature_settings_loop tbl lg d L = Inr (known_after tbl d fs L, lg')"
    "debug_enabled lg' = debug_enabled lg" "\<exists>more. records lg' = records lg @ more"
    using loop_known[OF assms(1), of tbl lg L] by blast
  have "check_feature_settings_of tbl lg d L = Inr (True, known_after tbl d fs L, lg')"
    using assms l(1) by (auto simp: check_feature_settings_of_def)
  then show ?thesis using l(2,3) by blast
qed

lemma check_feature_absent:
  "features d = Some fs \<Longrightarrow> fid \<notin> fs \<Longrightarrow> check_feature lg d nm fid fn = Inr (None, lg)"
  by (simp add: check_feature_def)

text \<open>
  Claim C1, amended. Take a device that passes the gates of \<^verbatim>\<open>check_feature_settings\<close>
  and an empty list of known settings. Let the rows of \<open>SETTINGS_TABLE\<close> whose feature the
  device advertises be A and C, in this order, let A and C have different names, and let
  their constructors yield the settings \<open>sA\<close> and \<open>sC\<close> on the device. Then the list after
  the call is \<open>sA\<close>, \<open>sC\<close>: a setting for A and one for C only, in the order of the table.
  And for a row whose feature identifier is not in the feature set of the device,
  \<^verbatim>\<open>check_feature\<close> returns \<open>None\<close> and logs nothing.
\<close>

theorem C1_catalog_order:
  assumes "features device = Some fs" "online device"
    and "protocol device = None \<or> protocol device = Some 0 \<or> 2 \<le> the (protocol device)"
    and "filter (row_advertised fs) SETTINGS_TABLE =
           [(nmA, Some fA, Some tA, regA, idA), (nmC, Some fC, Some tC, regC, idC)]"
    and "nmA \<noteq> nmC"
    and "setting_call tA device = Inr (Some sA)" "setting_call tC device = Inr (Some sC)"
  shows "(\<exists>lg'. check_feature_settings lg device [] = Inr (True, [sA, sC], lg'))
     \<and> (\<forall>nm fid fn lg0. fid \<notin> fs \<longrightarrow> check_feature lg0 device nm fid fn = Inr (None, lg0))"
proof -
  have d: "distinct (map fst (filter (row_advertised fs) SETTINGS_TABLE))"
    unfolding assms(4) using assms(5) by simp
  have "known_after SETTINGS_TABLE device fs [] =
      [] @ concat (map (row_detects device) (filter (row_advertised fs) SETTINGS_TABLE))"
    by (rule known_advertised[OF names_agree_SETTINGS_TABLE d]) simp
  also have "\<dots> = [sA, sC]"
    unfolding assms(4) using assms(6,7) by (simp add: row_detects_def)
  finally have k: "known_after SETTINGS_TABLE device fs [] = [sA, sC]" .
  have a: "\<exists>lg'. check_feature_settings lg device [] = Inr (True, [sA, sC], lg')"
    using gate_open[OF assms(1-3), of SETTINGS_TABLE lg "[]"] k
    by (auto simp: check_feature_settings_def)
  have b: "check_feature lg0 device nm fid fn = Inr (None, lg0)" if "fid \<notin> fs" for nm fid fn lg0
    using check_feature_absent[OF assms(1) that] .
  show ?thesis using a b by blast
qed

lemma filter_AC:
  "filter (row_advertised {F_HI_RES_SCROLLING, F_SMART_SHIFT}) SETTINGS_TABLE =
     [(HI_RES_SCROLL, Some F_HI_RES_SCROLLING, Some feature_hi_res_scroll, None, ''hi_res_scroll''),
      (SMART_SHIFT, Some F_SMART_SHIFT, Some feature_smart_shift, None, ''smart_shift'')]"
  by (simp add: SETTINGS_TABLE_def S_def row_advertised_def replace_dash_def string_defs)

text \<open>
  A mouse that advertises high-resolution scrolling and smart shift, and none of the rows
  in between: the two settings, in table order; and \<^verbatim>\<open>check_feature\<close> on the DPI row,
  whose feature the mouse does not advertise, returns \<open>None\<close>.
\<close>

theorem C1_catalog_order_witness:
  "(\<exists>lg'. check_feature_settings quiet mouse_AC [] =
      Inr (True, [hi_res_scroll_setting, smart_shift_setting], lg'))
   \<and> check_feature quiet mouse_AC DPI F_ADJUSTABLE_DPI feature_adjustable_dpi = Inr (None, quiet)"
proof -
  have f: "features mouse_AC = Some {F_HI_RES_SCROLLING, F_SMART_SHIFT}" "online mouse_AC"
    "protocol mouse_AC = None \<or> protocol mouse_AC = Some 0 \<or> 2 \<le> the (protocol mouse_AC)"
    by (simp_all add: mouse_AC_def example_device_def)
  have n: "HI_RES_SCROLL \<noteq> SMART_SHIFT" by (simp add: string_defs)
  have sA: "setting_call feature_hi_res_scroll mouse_AC = Inr (Some hi_res_scroll_setting)"
    by (simp add: setting_call_def bind_def template_defs string_defs hi_res_scroll_setting_def)
  have sC: "setting_call feature_smart_shift mouse_AC = Inr (Some smart_shift_setting)"
    by (simp add: setting_call_def bind_def template_defs string_defs smart_shift_setting_def
        MIN_SMART_SHIFT_VALUE_def MAX_SMART_SHIFT_VALUE_def)
  note t = C1_catalog_order[OF f filter_AC n sA sC, of quiet]
  have a: "\<exists>lg'. check_feature_settings quiet mouse_AC [] =
      Inr (True, [hi_res_scroll_setting, smart_shift_setting], lg')"
    using t by (rule conjunct1)
  have b: "check_feature quiet mouse_AC DPI F_ADJUSTABLE_DPI feature_adjustable_dpi = Inr (None, quiet)"
    using t[THEN conjunct2, rule_format, of F_ADJUSTABLE_DPI quiet DPI feature_adjustable_dpi] by simp
  show ?thesis using a b by blast
qed

text \<open>
  Claim C2. Let the constructor of a row raise \<open>e\<close> on a device that passes the gates.
  Then \<^verbatim>\<open>check_feature\<close> on this row returns \<open>None\<close>, after logging \<open>e\<close> with the feature
  identifier when the feature is advertised. \<^verbatim>\<open>check_feature_settings\<close> over a table
  with this row returns normally, with the same list of settings as over the table
  without the row, so every other row yields what it yields without it; and when the row
  is reached with its feature advertised and no setting of its name known, the error
  record of \<open>e\<close> with the feature identifier is in the log.
\<close>

theorem C2_exception_isolated:
  assumes "features device = Some fs" "online device"
    and "protocol device = None \<or> protocol device = Some 0 \<or> 2 \<le> the (protocol device)"
    and "setting_call fn device = Inl e"
  shows "\<exists>L' lg'.
      check_feature_settings_of (pre @ (nm, Some fid, Some fn, reg, ident) # post) lg device L = Inr (True, L', lg')
    \<and> (\<exists>lg''. check_feature_settings_of (pre @ post) lg device L = Inr (True, L', lg''))
    \<and> (\<forall>L1 lg1. check_feature_settings_loop pre lg device L = Inr (L1, lg1) \<and> fid \<in> fs
          \<and> \<not> list_ex (\<lambda>s. name s = nm) L1 \<longrightarrow> LogError fid e \<in> set (records lg'))
    \<and> check_feature lg device nm fid fn = Inr (None, if fid \<in> fs then log_error lg fid e else lg)"
proof -
  let ?tbl = "pre @ (nm, Some fid, Some fn, reg, ident) # post"
  obtain lg' where a: "check_feature_settings_of ?tbl lg device L = Inr (True, known_after ?tbl device fs L, lg')"
    using gate_open[OF assms(1-3), of ?tbl lg L] by blast
  obtain lg'' where b: "check_feature_settings_of (pre @ post) lg device L = Inr (True, known_after (pre @ post) device fs L, lg'')"
    using gate_open[OF assms(1-3), of "pre @ post" lg L] by blast
  have k: "known_after ?tbl device fs L = known_after (pre @ post) device fs L"
    by (rule known_raising_row[OF assms(4)])
  have lp: "check_feature_settings_loop ?tbl lg device L = Inr (known_after ?tbl device fs L, lg')"
    using a assms(1-3) by (auto simp: check_feature_settings_of_def split: sum.splits)
  have logged: "LogError fid e \<in> set (records lg')"
    if "check_feature_settings_loop pre lg device L = Inr (L1, lg1)" "fid \<in> fs"
       "\<not> list_ex (\<lambda>s. name s = nm) L1" for L1 lg1
    using raising_row_logged[OF assms(1,4) that lp] .
  have cf: "check_feature lg device nm fid fn = Inr (None, if fid \<in> fs then log_error lg fid e else lg)"
    using assms(1,4) by (simp add: check_feature_Some)
  show ?thesis using a b k logged cf by auto
qed

text \<open>
  Claim C7. \<^verbatim>\<open>check_feature_settings\<close> always returns; the list after the call is the
  list before it followed by new settings, whose names differ from each other and from
  the names already in the list; and a second call on the same device with the resulting
  list returns the same flag and leaves the list as it is.
\<close>

theorem C7_idempotent_add_only:
  "\<exists>b L1 lg1. check_feature_settings lg device L = Inr (b, L1, lg1)
     \<and> (\<exists>new. L1 = L @ new \<and> distinct (map name new) \<and> name ` set new \<inter> name ` set L = {})
     \<and> (\<forall>lg2. \<exists>lg3. check_feature_settings lg2 device L1 = Inr (b, L1, lg3))"
proof (cases "features device = None \<or> \<not> online device \<or>
    (protocol device \<noteq> None \<and> protocol device \<noteq> Some 0 \<and> the (protocol device) < 2)")
  case True
  then have "check_feature_settings lg2 device L = Inr (False, L, lg2)" for lg2
    by (auto simp: check_feature_settings_def check_feature_settings_of_def)
  then show ?thesis by auto
next
  case False
  then obtain fs where g: "features device = Some fs" "online device"
    "protocol device = None \<or> protocol device = Some 0 \<or> 2 \<le> the (protocol device)"
    by auto
  let ?L1 = "known_after SETTINGS_TABLE device fs L"
  obtain lg1 where a: "check_feature_settings lg device L = Inr (True, ?L1, lg1)"
    using gate_open[OF g, of SETTINGS_TABLE lg L] unfolding check_feature_settings_def by blast
  have n: "\<exists>new. ?L1 = L @ new \<and> distinct (map name new) \<and> name ` set new \<inter> name ` set L = {}"
    by (rule known_new_names[OF names_agree_SETTINGS_TABLE])
  have "\<exists>lg3. check_feature_settings lg2 device ?L1 = Inr (True, ?L1, lg3)" for lg2
    using gate_open[OF g, of SETTINGS_TABLE lg2 ?L1]
    unfolding check_feature_settings_def known_idempotent[OF names_agree_SETTINGS_TABLE] by blast
  then show ?thesis using a n by blast
qed

text \<open>
  Claim C8, amended. \<^verbatim>\<open>check_feature_settings\<close> returns \<open>False\<close> with the list and the
  log unchanged when the device has no feature metadata, is offline, or has a known
  (non-zero) protocol version below 2.0. It returns \<open>True\<close>, that is, it has gone through
  the table, exactly when the device has feature metadata, is online and its protocol
  version is unknown (\<open>None\<close> or 0) or at least 2.0.
\<close>

theorem C8_gate:
  "(features device = None \<or> \<not> online device
      \<or> (\<exists>p. protocol device = Some p \<and> p \<noteq> 0 \<and> p < 2)
    \<longrightarrow> check_feature_settings lg device L = Inr (False, L, lg))
   \<and> (\<forall>L' lg'. check_feature_settings lg device L = Inr (True, L', lg')
        \<longrightarrow> features device \<noteq> None \<and> online device
            \<and> (protocol device = None \<or> protocol device = Some 0 \<or> (\<exists>p. protocol device = Some p \<and> 2 \<le> p)))
   \<and> (features device \<noteq> None \<and> online device
        \<and> (protocol device = None \<or> protocol device = Some 0 \<or> (\<exists>p. protocol device = Some p \<and> 2 \<le> p))
      \<longrightarrow> (\<exists>L' lg'. check_feature_settings lg device L = Inr (True, L', lg')))"
proof -
  have a: "check_feature_settings lg device L = Inr (False, L, lg)"
    if "features device = None \<or> \<not> online device \<or> (\<exists>p. protocol device = Some p \<and> p \<noteq> 0 \<and> p < 2)"
    using that by (auto simp: check_feature_settings_def check_feature_settings_of_def)
  have b: "features device \<noteq> None \<and> online device
            \<and> (protocol device = None \<or> protocol device = Some 0 \<or> (\<exists>p. protocol device = Some p \<and> 2 \<le> p))"
    if "check_feature_settings lg device L = Inr (True, L', lg')" for L' lg'
    using that
    by (auto simp: check_feature_settings_def check_feature_settings_of_def split: if_splits)
  have c: "\<exists>L' lg'. check_feature_settings lg device L = Inr (True, L', lg')"
    if "features device \<noteq> None \<and> online device
        \<and> (protocol device = None \<or> protocol device = Some 0 \<or> (\<exists>p. protocol device = Some p \<and> 2 \<le> p))"
  proof -
    from that obtain fs where g: "features device = Some fs" "online device"
      "protocol device = None \<or> protocol device = Some 0 \<or> 2 \<le> the (protocol device)"
      by auto
    show ?thesis
      using gate_open[OF g, of SETTINGS_TABLE lg L] unfolding check_feature_settings_def by blast
  qed
  show ?thesis using a b c by blast
qed

lemmas eval_defs =
  check_feature_settings_def check_feature_settings_of_def SETTINGS_TABLE_def S_def
  check_feature_def setting_call_def bind_def template_defs string_defs log_debug_def
  log_error_def example_device_def no_reply_def quiet_def verbose_def
  feature_adjustable_dpi_callback_def MIN_SMART_SHIFT_VALUE_def MAX_SMART_SHIFT_VALUE_def
  Let_def

lemma run_mouse_bad_dpi:
  "check_feature_settings verbose mouse_bad_dpi [] =
     Inr (True, [hi_res_scroll_setting],
          \<lparr>debug_enabled = True,
           records = [LogDebug F_HI_RES_SCROLLING (Some hi_res_scroll_setting),
                      LogError F_ADJUSTABLE_DPI AssertionError]\<rparr>)"
  by (simp add: eval_defs mouse_bad_dpi_def hi_res_scroll_setting_def)

lemma run_keyboard_fn_both:
  "check_feature_settings verbose keyboard_fn_both [] =
     Inr (True, [fn_swap_setting],
          \<lparr>debug_enabled = True, records = [LogDebug F_FN_INVERSION (Some fn_swap_setting)]\<rparr>)"
  by (simp add: eval_defs keyboard_fn_both_def fn_swap_setting_def)

lemma run_mouse_AC:
  "check_feature_settings quiet mouse_AC [] =
     Inr (True, [hi_res_scroll_setting, smart_shift_setting], quiet)"
  by (simp add: eval_defs mouse_AC_def hi_res_scroll_setting_def smart_shift_setting_def)

lemma run_keyboard_fn_k375s:
  "check_feature_settings quiet keyboard_fn_k375s [] = Inr (True, [fn_swap_setting], quiet)"
  by (simp add: eval_defs keyboard_fn_k375s_def fn_swap_setting_def)

lemma filter_fn_k375s:
  "filter (row_advertised {F_FN_INVERSION, F_K375S_FN_INVERSION}) SETTINGS_TABLE =
     [(FN_SWAP, Some F_FN_INVERSION, Some feature_fn_swap, Some register_fn_swap, ''fn_swap''),
      (FN_SWAP, Some F_K375S_FN_INVERSION, Some feature_k375s_fn_swap, None, ''k375s_fn_swap'')]"
  by (simp add: SETTINGS_TABLE_def S_def row_advertised_def replace_dash_def string_defs)

lemma filter_bad_dpi:
  "filter (row_advertised {F_HI_RES_SCROLLING, F_ADJUSTABLE_DPI}) SETTINGS_TABLE =
     [(HI_RES_SCROLL, Some F_HI_RES_SCROLLING, Some feature_hi_res_scroll, None, ''hi_res_scroll''),
      (DPI, Some F_ADJUSTABLE_DPI, Some feature_adjustable_dpi, Some register_dpi, ''dpi'')]"
  by (simp add: SETTINGS_TABLE_def S_def row_advertised_def replace_dash_def string_defs)

lemma run_quiet_mouse_bad_dpi:
  "check_feature_settings quiet mouse_bad_dpi [] =
     Inr (True, [hi_res_scroll_setting],
          \<lparr>debug_enabled = False, records = [LogError F_ADJUSTABLE_DPI AssertionError]\<rparr>)"
  by (simp add: eval_defs mouse_bad_dpi_def hi_res_scroll_setting_def)

text \<open>
  Claim C1 as stated fails. The keyboard advertises exactly the features of the first and
  the third row for swapping the function keys (A and C) and not that of the second (B);
  both constructors yield a setting on it, yet the list after the call has the setting of
  A only, because the two rows have the same name. And on the mouse that advertises
  exactly the features of the rows for high-resolution scrolling and for the DPI, with a
  DPI list that cannot be read, the list has the setting of the first row only, because
  the constructor of the second raises.
\<close>

theorem C1_same_name_counterexample:
  "features keyboard_fn_k375s = Some {F_FN_INVERSION, F_K375S_FN_INVERSION}
   \<and> filter (row_advertised {F_FN_INVERSION, F_K375S_FN_INVERSION}) SETTINGS_TABLE =
       [(FN_SWAP, Some F_FN_INVERSION, Some feature_fn_swap, Some register_fn_swap, ''fn_swap''),
        (FN_SWAP, Some F_K375S_FN_INVERSION, Some feature_k375s_fn_swap, None, ''k375s_fn_swap'')]
   \<and> setting_call feature_fn_swap keyboard_fn_k375s = Inr (Some fn_swap_setting)
   \<and> setting_call feature_k375s_fn_swap keyboard_fn_k375s = Inr (Some k375s_fn_swap_setting)
   \<and> check_feature_settings quiet keyboard_fn_k375s [] = Inr (True, [fn_swap_setting], quiet)
   \<and> k375s_fn_swap_setting \<noteq> fn_swap_setting
   \<and> features mouse_bad_dpi = Some {F_HI_RES_SCROLLING, F_ADJUSTABLE_DPI}
   \<and> filter (row_advertised {F_HI_RES_SCROLLING, F_ADJUSTABLE_DPI}) SETTINGS_TABLE =
       [(HI_RES_SCROLL, Some F_HI_RES_SCROLLING, Some feature_hi_res_scroll, None, ''hi_res_scroll''),
        (DPI, Some F_ADJUSTABLE_DPI, Some feature_adjustable_dpi, Some register_dpi, ''dpi'')]
   \<and> check_feature_settings quiet mouse_bad_dpi [] =
       Inr (True, [hi_res_scroll_setting],
            \<lparr>debug_enabled = False, records = [LogError F_ADJUSTABLE_DPI AssertionError]\<rparr>)"
  using run_keyboard_fn_k375s filter_fn_k375s filter_bad_dpi run_quiet_mouse_bad_dpi
  by (simp add: keyboard_fn_k375s_def mouse_bad_dpi_def example_device_def setting_call_def
      bind_def template_defs k375s_fn_swap_setting_def fn_swap_setting_def FN_SWAP_def)

lemma dpi_row_split:
  "SETTINGS_TABLE = take 10 SETTINGS_TABLE @
     (DPI, Some F_ADJUSTABLE_DPI, Some feature_adjustable_dpi, Some register_dpi, ''dpi'') #
     drop 11 SETTINGS_TABLE"
  by (simp add: SETTINGS_TABLE_def S_def DPI_def replace_dash_def)

lemma dpi_raises_no_reply: "setting_call feature_adjustable_dpi mouse_bad_dpi = Inl AssertionError"
  by (simp add: setting_call_def template_defs feature_adjustable_dpi_callback_def
      mouse_bad_dpi_def example_device_def no_reply_def)

text \<open>
  A mouse whose DPI list cannot be read: the DPI row raises, the error is logged, and the
  setting for high-resolution scrolling is still found.
\<close>

theorem C2_exception_isolated_witness:
  "check_feature_settings verbose mouse_bad_dpi [] =
     Inr (True, [hi_res_scroll_setting],
          \<lparr>debug_enabled = True,
           records = [LogDebug F_HI_RES_SCROLLING (Some hi_res_scroll_setting),
                      LogError F_ADJUSTABLE_DPI AssertionError]\<rparr>)
   \<and> (\<exists>lg''. check_feature_settings_of (take 10 SETTINGS_TABLE @ drop 11 SETTINGS_TABLE)
          verbose mouse_bad_dpi [] = Inr (True, [hi_res_scroll_setting], lg''))
   \<and> check_feature verbose mouse_bad_dpi DPI F_ADJUSTABLE_DPI feature_adjustable_dpi =
        Inr (None, log_error verbose F_ADJUSTABLE_DPI AssertionError)"
proof -
  have g: "features mouse_bad_dpi = Some {F_HI_RES_SCROLLING, F_ADJUSTABLE_DPI}" "online mouse_bad_dpi"
    "protocol mouse_bad_dpi = None \<or> protocol mouse_bad_dpi = Some 0 \<or> 2 \<le> the (protocol mouse_bad_dpi)"
    by (simp_all add: mouse_bad_dpi_def example_device_def)
  note t = C2_exception_isolated[OF g dpi_raises_no_reply,
      of "take 10 SETTINGS_TABLE" DPI F_ADJUSTABLE_DPI "Some register_dpi" "''dpi''"
         "drop 11 SETTINGS_TABLE" verbose "[]"]
  show ?thesis
    using t run_mouse_bad_dpi
    unfolding dpi_row_split[symmetric] check_feature_settings_def[symmetric]
    by auto
qed

text \<open>A second call on the mouse with two settings adds nothing.\<close>

theorem C7_idempotent_add_only_witness:
  "check_feature_settings quiet mouse_AC [] =
     Inr (True, [hi_res_scroll_setting, smart_shift_setting], quiet)
   \<and> (\<exists>lg3. check_feature_settings verbose mouse_AC [hi_res_scroll_setting, smart_shift_setting] =
     Inr (True, [hi_res_scroll_setting, smart_shift_setting], lg3))"
  using C7_idempotent_add_only[of quiet mouse_AC "[]"] run_mouse_AC by auto

text \<open>A mouse with protocol 1.0 is not probed, a mouse with protocol 2.0 is.\<close>

theorem C8_gate_witness:
  "check_feature_settings verbose mouse_old [hi_res_scroll_setting] = Inr (False, [hi_res_scroll_setting], verbose)
   \<and> (\<exists>L' lg'. check_feature_settings verbose mouse_AC [] = Inr (True, L', lg'))
   \<and> features mouse_AC \<noteq> None \<and> online mouse_AC \<and> protocol mouse_AC = Some 2"
proof -
  have o: "protocol mouse_old = Some 1" "protocol mouse_AC = Some 2" "features mouse_AC \<noteq> None" "online mouse_AC"
    by (simp_all add: mouse_old_def mouse_AC_def example_device_def)
  have a: "check_feature_settings verbose mouse_old [hi_res_scroll_setting] = Inr (False, [hi_res_scroll_setting], verbose)"
    using C8_gate[of mouse_old verbose "[hi_res_scroll_setting]", THEN conjunct1] o by simp
  have b: "\<exists>L' lg'. check_feature_settings verbose mouse_AC [] = Inr (True, L', lg')"
    using C8_gate[of mouse_AC verbose "[]", THEN conjunct2, THEN conjunct2] o by simp
  show ?thesis using a b o by simp
qed

lemma run_mouse_unknown:
  "check_feature_settings verbose mouse_unknown [] =
     Inr (True, [hi_res_scroll_setting],
          \<lparr>debug_enabled = True, records = [LogDebug F_HI_RES_SCROLLING (Some hi_res_scroll_setting)]\<rparr>)"
  by (simp add: eval_defs mouse_unknown_def hi_res_scroll_setting_def)

lemma run_mouse_zero:
  "check_feature_settings verbose mouse_zero [] =
     Inr (True, [hi_res_scroll_setting],
          \<lparr>debug_enabled = True, records = [LogDebug F_HI_RES_SCROLLING (Some hi_res_scroll_setting)]\<rparr>)"
  by (simp add: eval_defs mouse_zero_def hi_res_scroll_setting_def)

text \<open>
  Claim C8 as stated fails: a device whose protocol version is unknown, or 0, is probed
  and gets a setting, although its version is not at least 2.0.
\<close>

theorem C8_gate_counterexample:
  "protocol mouse_unknown = None
   \<and> check_feature_settings verbose mouse_unknown [] =
       Inr (True, [hi_res_scroll_setting],
            \<lparr>debug_enabled = True, records = [LogDebug F_HI_RES_SCROLLING (Some hi_res_scroll_setting)]\<rparr>)
   \<and> protocol mouse_zero = Some 0 \<and> (0 :: rat) < 2
   \<and> check_feature_settings verbose mouse_zero [] =
       Inr (True, [hi_res_scroll_setting],
            \<lparr>debug_enabled = True, records = [LogDebug F_HI_RES_SCROLLING (Some hi_res_scroll_setting)]\<rparr>)"
  using run_mouse_unknown run_mouse_zero
  by (simp add: mouse_unknown_def mouse_zero_def example_device_def)

lemma loop_split_probe:
  assumes "features d = Some fs"
    and "check_feature_settings_loop (pre @ (nm, Some fid, Some fn, reg, ident) # post) lg d L = Inr (L', lg')"
    and "check_feature_settings_loop pre lg d L = Inr (L1, lg1)"
    and "\<not> list_ex (\<lambda>s. name s = nm) L1"
  shows "\<exists>detected lg2. check_feature lg1 d nm fid fn = Inr (detected, lg2)
      \<and> (fid \<in> fs \<longrightarrow>
           (case setting_call fn d of
              Inr x \<Rightarrow> detected = x \<and> lg2 = (if debug_enabled lg1 then log_debug lg1 fid x else lg1)
            | Inl e \<Rightarrow> detected = None \<and> lg2 = log_error lg1 fid e))
      \<and> check_feature_settings_loop post lg2 d (case detected of Some s \<Rightarrow> L1 @ [s] | None \<Rightarrow> L1) =
          Inr (L', lg')"
proof -
  obtain detected lg2 where cf: "check_feature lg1 d nm fid fn = Inr (detected, lg2)"
    using check_feature_Some[OF assms(1), of lg1 nm fid fn] by (metis surj_pair)
  have c: "fid \<in> fs \<longrightarrow>
           (case setting_call fn d of
              Inr x \<Rightarrow> detected = x \<and> lg2 = (if debug_enabled lg1 then log_debug lg1 fid x else lg1)
            | Inl e \<Rightarrow> detected = None \<and> lg2 = log_error lg1 fid e)"
    using cf unfolding check_feature_Some[OF assms(1)] by (auto split: sum.splits)
  have "check_feature_settings_loop ((nm, Some fid, Some fn, reg, ident) # post) lg1 d L1 = Inr (L', lg')"
    using assms(2) unfolding loop_append assms(3) by simp
  then have "check_feature_settings_loop post lg2 d (case detected of Some s \<Rightarrow> L1 @ [s] | None \<Rightarrow> L1) =
          Inr (L', lg')"
    unfolding loop_probe[OF assms(4)] cf by (simp split: option.splits)
  then show ?thesis using cf c by blast
qed

lemma loop_split_skip:
  assumes "check_feature_settings_loop (pre @ (nm, fid, fn, reg, ident) # post) lg d L = Inr (L', lg')"
    and "check_feature_settings_loop pre lg d L = Inr (L1, lg1)"
    and "fid = None \<or> fn = None \<or> list_ex (\<lambda>s. name s = nm) L1"
  shows "check_feature_settings_loop post lg1 d L1 = Inr (L', lg')"
proof -
  have "check_feature_settings_loop ((nm, fid, fn, reg, ident) # post) lg1 d L1 = Inr (L', lg')"
    using assms(1) unfolding loop_append assms(2) by simp
  then show ?thesis unfolding loop_skip[OF assms(3)] .
qed

lemma loop_split_prefix:
  assumes "features d = Some fs"
    and "check_feature_settings_loop (pre @ post) lg d L = Inr (L', lg')"
    and "check_feature_settings_loop pre lg d L = Inr (L1, lg1)"
  shows "\<exists>more. L' = L1 @ more"
proof -
  have "check_feature_settings_loop post lg1 d L1 = Inr (L', lg')"
    using assms(2) unfolding loop_append assms(3) by simp
  then have "L' = known_after post d fs L1"
    using loop_known[OF assms(1), of post lg1 L1] by auto
  then show ?thesis using known_extends[of post d fs L1] by simp
qed

text \<open>
  Claim C6, amended. After a call that went through the table: if no two settings of the
  list had the same name before the call, none have after it. A row with a feature
  identifier and a constructor that is reached while the list has no setting with the
  name of the row (the first string of its triple, which the three rows for swapping the
  function keys share) is probed: \<^verbatim>\<open>check_feature\<close> is applied to it, which, when the
  feature is advertised, gives what the constructor of the row yields and logs it; its
  result is appended, and the call ends as the loop over the rest of the table does from
  there. Every other row is passed over: the call ends as the loop over the rest of the
  table does with the list and the log as they are. The list only grows, so that a row
  of whose name the resulting list has no setting was reached with no such setting.
\<close>

theorem C6_skip_by_name:
  assumes "check_feature_settings lg device L = Inr (True, L', lg')"
  shows "(distinct (map name L) \<longrightarrow> distinct (map name L'))
     \<and> (\<forall>pre nm fid fn reg ident post L1 lg1.
           SETTINGS_TABLE = pre @ (nm, Some fid, Some fn, reg, ident) # post
           \<and> check_feature_settings_loop pre lg device L = Inr (L1, lg1)
           \<and> \<not> list_ex (\<lambda>s. name s = nm) L1
         \<longrightarrow> (\<exists>detected lg2. check_feature lg1 device nm fid fn = Inr (detected, lg2)
               \<and> (fid \<in> the (features device) \<longrightarrow>
                    (case setting_call fn device of
                       Inr x \<Rightarrow> detected = x
                         \<and> lg2 = (if debug_enabled lg1 then log_debug lg1 fid x else lg1)
                     | Inl e \<Rightarrow> detected = None \<and> lg2 = log_error lg1 fid e))
               \<and> check_feature_settings_loop post lg2 device
                    (case detected of Some s \<Rightarrow> L1 @ [s] | None \<Rightarrow> L1) = Inr (L', lg')))
     \<and> (\<forall>pre nm fid fn reg ident post L1 lg1.
           SETTINGS_TABLE = pre @ (nm, fid, fn, reg, ident) # post
           \<and> check_feature_settings_loop pre lg device L = Inr (L1, lg1)
           \<and> (fid = None \<or> fn = None \<or> list_ex (\<lambda>s. name s = nm) L1)
         \<longrightarrow> check_feature_settings_loop post lg1 device L1 = Inr (L', lg'))
     \<and> (\<forall>pre post L1 lg1.
           SETTINGS_TABLE = pre @ post
           \<and> check_feature_settings_loop pre lg device L = Inr (L1, lg1)
         \<longrightarrow> (\<exists>more. L' = L1 @ more))
     \<and> (\<forall>nm fid fn reg ident rows lg0 L0.
           list_ex (\<lambda>s. name s = nm) L0
         \<longrightarrow> check_feature_settings_loop ((nm, fid, fn, reg, ident) # rows) lg0 device L0 =
             check_feature_settings_loop rows lg0 device L0)"
proof -
  from assms obtain fs where fs: "features device = Some fs"
    and lp: "check_feature_settings_loop SETTINGS_TABLE lg device L = Inr (L', lg')"
    by (auto simp: check_feature_settings_def check_feature_settings_of_def
        split: if_splits sum.splits)
  have L': "L' = known_after SETTINGS_TABLE device fs L"
    using loop_known[OF fs, of SETTINGS_TABLE lg L] lp by auto
  obtain new where n: "L' = L @ new" "distinct (map name new)" "name ` set new \<inter> name ` set L = {}"
    using known_new_names[OF names_agree_SETTINGS_TABLE, of device fs L] L' by blast
  have a: "distinct (map name L) \<longrightarrow> distinct (map name L')"
    using n by auto
  have b: "\<exists>detected lg2. check_feature lg1 device nm fid fn = Inr (detected, lg2)
               \<and> (fid \<in> the (features device) \<longrightarrow>
                    (case setting_call fn device of
                       Inr x \<Rightarrow> detected = x
                         \<and> lg2 = (if debug_enabled lg1 then log_debug lg1 fid x else lg1)
                     | Inl e \<Rightarrow> detected = None \<and> lg2 = log_error lg1 fid e))
               \<and> check_feature_settings_loop post lg2 device
                    (case detected of Some s \<Rightarrow> L1 @ [s] | None \<Rightarrow> L1) = Inr (L', lg')"
    if "SETTINGS_TABLE = pre @ (nm, Some fid, Some fn, reg, ident) # post
           \<and> check_feature_settings_loop pre lg device L = Inr (L1, lg1)
           \<and> \<not> list_ex (\<lambda>s. name s = nm) L1"
    for pre nm fid fn reg ident post L1 lg1
  proof -
    have l: "check_feature_settings_loop (pre @ (nm, Some fid, Some fn, reg, ident) # post) lg device L =
        Inr (L', lg')"
      using lp that by simp
    show ?thesis
      using loop_split_probe[OF fs l, of L1 lg1] that fs by simp
  qed
  have c: "check_feature_settings_loop post lg1 device L1 = Inr (L', lg')"
    if "SETTINGS_TABLE = pre @ (nm, fid, fn, reg, ident) # post
           \<and> check_feature_settings_loop pre lg device L = Inr (L1, lg1)
           \<and> (fid = None \<or> fn = None \<or> list_ex (\<lambda>s. name s = nm) L1)"
    for pre nm fid fn reg ident post L1 lg1
  proof -
    have l: "check_feature_settings_loop (pre @ (nm, fid, fn, reg, ident) # post) lg device L =
        Inr (L', lg')"
      using lp that by simp
    show ?thesis
      using loop_split_skip[OF l, of L1 lg1] that by blast
  qed
  have d: "\<exists>more. L' = L1 @ more"
    if "SETTINGS_TABLE = pre @ post \<and> check_feature_settings_loop pre lg device L = Inr (L1, lg1)"
    for pre post L1 lg1
  proof -
    have l: "check_feature_settings_loop (pre @ post) lg device L = Inr (L', lg')"
      using lp that by simp
    show ?thesis using loop_split_prefix[OF fs l, of L1 lg1] that by blast
  qed
  have e: "check_feature_settings_loop ((nm, fid, fn, reg, ident) # rows) lg0 device L0 =
             check_feature_settings_loop rows lg0 device L0"
    if "list_ex (\<lambda>s. name s = nm) L0" for nm fid fn reg ident rows lg0 L0
    using that by (auto split: option.splits)
  show ?thesis
    apply (intro conjI allI impI)
    subgoal by (rule a[rule_format])
    subgoal for pre nm fid fn reg ident post L1 lg1 by (rule b)
    subgoal for pre nm fid fn reg ident post L1 lg1 by (rule c)
    subgoal for pre post L1 lg1 by (rule d)
    subgoal for nm fid fn reg ident rows lg0 L0 by (rule e)
    done
qed

lemma run_mouse_hires:
  "check_feature_settings verbose mouse_hires [] =
     Inr (True, [hires_inv_setting, hires_res_setting],
          \<lparr>debug_enabled = True,
           records = [LogDebug F_HIRES_WHEEL (Some hires_inv_setting),
                      LogDebug F_HIRES_WHEEL (Some hires_res_setting)]\<rparr>)"
  by (simp add: eval_defs mouse_hires_def hires_inv_setting_def hires_res_setting_def)

lemma hires_res_row_split:
  "SETTINGS_TABLE = take 6 SETTINGS_TABLE @
     (HIRES_RES, Some F_HIRES_WHEEL, Some feature_hires_smooth_resolution, None,
      ''hires_smooth_resolution'') # drop 7 SETTINGS_TABLE"
  by (simp add: SETTINGS_TABLE_def S_def HIRES_RES_def replace_dash_def)

lemma hires_res_pre:
  "check_feature_settings_loop (take 6 SETTINGS_TABLE) verbose mouse_hires [] =
     Inr ([hires_inv_setting],
          \<lparr>debug_enabled = True, records = [LogDebug F_HIRES_WHEEL (Some hires_inv_setting)]\<rparr>)"
  by (simp add: eval_defs mouse_hires_def hires_inv_setting_def)

text \<open>
  On the mouse with the high-resolution wheel, the second of the two rows that share the
  feature is reached with the setting of the first in the list, and is probed: its
  constructor yields its setting, which is logged and appended.
\<close>

theorem C6_skip_by_name_witness:
  "check_feature_settings verbose mouse_hires [] =
     Inr (True, [hires_inv_setting, hires_res_setting],
          \<lparr>debug_enabled = True,
           records = [LogDebug F_HIRES_WHEEL (Some hires_inv_setting),
                      LogDebug F_HIRES_WHEEL (Some hires_res_setting)]\<rparr>)
   \<and> distinct (map name [hires_inv_setting, hires_res_setting])
   \<and> check_feature
        \<lparr>debug_enabled = True, records = [LogDebug F_HIRES_WHEEL (Some hires_inv_setting)]\<rparr>
        mouse_hires HIRES_RES F_HIRES_WHEEL feature_hires_smooth_resolution =
       Inr (Some hires_res_setting,
            \<lparr>debug_enabled = True,
             records = [LogDebug F_HIRES_WHEEL (Some hires_inv_setting),
                        LogDebug F_HIRES_WHEEL (Some hires_res_setting)]\<rparr>)
   \<and> check_feature_settings_loop (drop 7 SETTINGS_TABLE)
        \<lparr>debug_enabled = True,
         records = [LogDebug F_HIRES_WHEEL (Some hires_inv_setting),
                    LogDebug F_HIRES_WHEEL (Some hires_res_setting)]\<rparr>
        mouse_hires [hires_inv_setting, hires_res_setting] =
       Inr ([hires_inv_setting, hires_res_setting],
            \<lparr>debug_enabled = True,
             records = [LogDebug F_HIRES_WHEEL (Some hires_inv_setting),
                        LogDebug F_HIRES_WHEEL (Some hires_res_setting)]\<rparr>)"
proof -
  note t = C6_skip_by_name[OF run_mouse_hires]
  let ?lg1 = "\<lparr>debug_enabled = True, records = [LogDebug F_HIRES_WHEEL (Some hires_inv_setting)]\<rparr>"
  let ?lg2 = "\<lparr>debug_enabled = True,
             records = [LogDebug F_HIRES_WHEEL (Some hires_inv_setting),
                        LogDebug F_HIRES_WHEEL (Some hires_res_setting)]\<rparr>"
  have pre: "F_HIRES_WHEEL \<in> the (features mouse_hires)"
    "\<not> list_ex (\<lambda>s. name s = HIRES_RES) [hires_inv_setting]"
    by (simp_all add: mouse_hires_def example_device_def hires_inv_setting_def HIRES_RES_def)
  have sc: "setting_call feature_hires_smooth_resolution mouse_hires = Inr (Some hires_res_setting)"
    by (simp add: setting_call_def bind_def template_defs string_defs hires_res_setting_def Let_def)
  have a: "distinct (map name [hires_inv_setting, hires_res_setting])"
    using t[THEN conjunct1] by simp
  obtain detected lg2 where b:
    "check_feature ?lg1 mouse_hires HIRES_RES F_HIRES_WHEEL feature_hires_smooth_resolution =
       Inr (detected, lg2)"
    "F_HIRES_WHEEL \<in> the (features mouse_hires) \<longrightarrow>
       (case setting_call feature_hires_smooth_resolution mouse_hires of
          Inr x \<Rightarrow> detected = x
            \<and> lg2 = (if debug_enabled ?lg1 then log_debug ?lg1 F_HIRES_WHEEL x else ?lg1)
        | Inl e \<Rightarrow> detected = None \<and> lg2 = log_error ?lg1 F_HIRES_WHEEL e)"
    "check_feature_settings_loop (drop 7 SETTINGS_TABLE) lg2 mouse_hires
       (case detected of Some s \<Rightarrow> [hires_inv_setting] @ [s] | None \<Rightarrow> [hires_inv_setting]) =
       Inr ([hires_inv_setting, hires_res_setting], ?lg2)"
    using t[THEN conjunct2, THEN conjunct1, rule_format,
        of "take 6 SETTINGS_TABLE" HIRES_RES F_HIRES_WHEEL feature_hires_smooth_resolution
           None "''hires_smooth_resolution''" "drop 7 SETTINGS_TABLE" "[hires_inv_setting]" ?lg1]
      hires_res_row_split hires_res_pre pre(2)
    by blast
  have d: "detected = Some hires_res_setting" "lg2 = ?lg2"
    using b(2) pre(1) sc by (simp_all add: log_debug_def)
  show ?thesis using run_mouse_hires a b(1,3) d by simp
qed

lemma new_fn_swap_row:
  "(FN_SWAP, Some F_NEW_FN_INVERSION, Some feature_new_fn_swap, None, ''new_fn_swap'')
     \<in> set SETTINGS_TABLE"
  by (simp add: SETTINGS_TABLE_def S_def)

text \<open>
  Claim C6 as stated fails: the row with the stable key \<open>new_fn_swap\<close> has a feature
  that the keyboard advertises and a constructor that yields a setting on it, and the
  list, empty before the call, has no entry of this key; yet the row is not probed (the
  debug log has the record of the first row only) and its setting is not in the list,
  because the setting of the first row has the same name.
\<close>

theorem C6_stable_key_counterexample:
  "(FN_SWAP, Some F_NEW_FN_INVERSION, Some feature_new_fn_swap, None, ''new_fn_swap'')
     \<in> set SETTINGS_TABLE
   \<and> F_NEW_FN_INVERSION \<in> the (features keyboard_fn_both)
   \<and> setting_call feature_new_fn_swap keyboard_fn_both = Inr (Some new_fn_swap_setting)
   \<and> check_feature_settings verbose keyboard_fn_both [] =
       Inr (True, [fn_swap_setting],
            \<lparr>debug_enabled = True, records = [LogDebug F_FN_INVERSION (Some fn_swap_setting)]\<rparr>)
   \<and> new_fn_swap_setting \<noteq> fn_swap_setting"
  using new_fn_swap_row run_keyboard_fn_both
  by (simp add: keyboard_fn_both_def example_device_def setting_call_def bind_def template_defs
      new_fn_swap_setting_def fn_swap_setting_def FN_SWAP_def)

subsection \<open>The DPI list\<close>

lemma range_up_map:
  "0 < step \<Longrightarrow> range_up start stop step =
     (if start < stop then map (\<lambda>k. start + k * step) [0..<Suc ((stop - start - 1) div step)] else [])"
proof (induction start stop step rule: range_up.induct)
  case (1 start stop step)
  show ?case
  proof (cases "start < stop")
    case False
    then show ?thesis by simp
  next
    case True
    have unfold: "range_up start stop step = start # range_up (start + step) stop step"
      using True 1(2) by simp
    show ?thesis
    proof (cases "start + step < stop")
      case False
      then have "(stop - start - 1) div step = 0" using True by simp
      moreover have "range_up (start + step) stop step = []" using False by simp
      ultimately show ?thesis using True unfold by (simp del: range_up.simps)
    next
      case lt: True
      have ih: "range_up (start + step) stop step =
          map (\<lambda>k. start + step + k * step) [0..<Suc ((stop - (start + step) - 1) div step)]"
        using 1 True lt by simp
      have "\<not> stop - start - 1 < step" using lt by simp
      then have "(stop - start - 1) div step = Suc ((stop - start - 1 - step) div step)"
        using 1(2) by (simp add: le_div_geq)
      moreover have "stop - start - 1 - step = stop - (start + step) - 1" by simp
      ultimately have n: "(stop - start - 1) div step = Suc ((stop - (start + step) - 1) div step)"
        by simp
      show ?thesis
        unfolding unfold ih n using True
        by (simp add: map_upt_Suc del: range_up.simps upt_Suc)
    qed
  qed
qed

lemma step_marked_nonzero: "step_marked v \<Longrightarrow> v \<noteq> 0"
  by (cases "v = 0") (simp_all add: step_marked_def)

lemma dpi_loop_takeWhile:
  "dpi_list_loop vals step acc = dpi_list_loop (takeWhile (\<lambda>v. v \<noteq> 0) vals) step acc"
  by (induction vals arbitrary: step acc) auto

lemma dpi_loop_literals:
  "list_all (\<lambda>v. v \<noteq> 0 \<and> \<not> step_marked v) lits \<Longrightarrow>
   dpi_list_loop (lits @ rest) step acc = dpi_list_loop rest step (acc @ lits)"
  by (induction lits arbitrary: acc) (auto simp: step_marked_def)

lemma dpi_loop_step:
  "step_marked sv \<Longrightarrow>
   dpi_list_loop (sv # rest) step acc =
     (if step = None \<and> length acc = 1 then dpi_list_loop rest (Some (sv AND 0x1fff)) acc
      else Inl AssertionError)"
  using step_marked_nonzero[of sv] by (simp add: step_marked_def)

lemma takeWhile_nonzero: "list_all (\<lambda>v. v \<noteq> 0) (takeWhile (\<lambda>v. v \<noteq> (0::nat)) vals)"
  by (induction vals) auto

lemma dpi_list_of_takeWhile:
  "dpi_list_of vals = dpi_list_of (takeWhile (\<lambda>v. v \<noteq> 0) vals)"
  unfolding dpi_list_of_def using dpi_loop_takeWhile[of vals None "[]"] by simp

lemma literals_conj:
  "list_all (\<lambda>v. v \<noteq> 0) xs \<Longrightarrow> list_all (\<lambda>v. \<not> step_marked v) xs \<Longrightarrow>
   list_all (\<lambda>v. v \<noteq> 0 \<and> \<not> step_marked v) xs"
  by (induction xs) auto

lemma dpi_no_step:
  assumes "list_all (\<lambda>v. \<not> step_marked v) (takeWhile (\<lambda>v. v \<noteq> 0) vals)"
  shows "dpi_list_of vals = dpi_validator (takeWhile (\<lambda>v. v \<noteq> 0) vals)"
proof -
  let ?p = "takeWhile (\<lambda>v. v \<noteq> 0) vals"
  have "dpi_list_loop (?p @ []) None [] = dpi_list_loop [] None ([] @ ?p)"
    by (rule dpi_loop_literals[OF literals_conj[OF takeWhile_nonzero assms]])
  then have "dpi_list_loop ?p None [] = Inr (None, ?p)" by simp
  then show ?thesis
    unfolding dpi_list_of_takeWhile[of vals] by (simp add: dpi_list_of_def)
qed

lemma dpi_one_step:
  assumes "takeWhile (\<lambda>v. v \<noteq> 0) vals = l # sv # lits"
    and "\<not> step_marked l" "step_marked sv" "list_all (\<lambda>v. \<not> step_marked v) lits"
  shows "dpi_list_loop vals None [] = Inr (Some (sv AND 0x1fff), l # lits)"
proof -
  have nz: "list_all (\<lambda>v. v \<noteq> 0) (l # sv # lits)"
    using takeWhile_nonzero[of vals] assms(1) by simp
  have l: "l \<noteq> 0 \<and> \<not> step_marked l" using nz assms(2) by simp
  have lits: "list_all (\<lambda>v. v \<noteq> 0 \<and> \<not> step_marked v) lits"
    using literals_conj[of lits] nz assms(4) by simp
  have "dpi_list_loop (l # sv # lits) None [] = dpi_list_loop (sv # lits) None [l]"
    using dpi_loop_literals[of "[l]" "sv # lits" None "[]"] l by simp
  also have "\<dots> = dpi_list_loop lits (Some (sv AND 0x1fff)) [l]"
    using dpi_loop_step[OF assms(3), of lits None "[l]"] by (simp del: dpi_list_loop.simps)
  also have "\<dots> = Inr (Some (sv AND 0x1fff), l # lits)"
    using dpi_loop_literals[OF lits, of "[]" "Some (sv AND 0x1fff)" "[l]"] by simp
  finally show ?thesis
    using dpi_loop_takeWhile[of vals None "[]"] assms(1) by simp
qed

lemma dpi_validator_cases:
  "dpi_validator xs =
     (if xs = [] then Inr None
      else if 1 < length (remdups xs) then Inr (Some (ChoicesV (NamedInts_list xs) (Some 3) 0 []))
      else Inl AssertionError)"
  by (simp add: dpi_validator_def new_ChoicesV_def)


lemma steps_distinct: "0 < s \<Longrightarrow> distinct (map (\<lambda>k. first + k * s) [0..<n])"
  by (simp add: distinct_map inj_on_def)

lemma dpi_expand:
  assumes "takeWhile (\<lambda>v. v \<noteq> 0) vals = [first, sv, final]"
    and "\<not> step_marked first" "step_marked sv" "sv AND 0x1fff \<noteq> 0" "\<not> step_marked final"
  shows "dpi_list_of vals =
     (if final < first then Inr None
      else if final < first + (sv AND 0x1fff) then Inl AssertionError
      else Inr (Some (ChoicesV (NamedInts_list
             (map (\<lambda>k. first + k * (sv AND 0x1fff)) [0..<Suc ((final - first) div (sv AND 0x1fff))]))
             (Some 3) 0 [])))"
proof -
  define s where "s = sv AND 0x1fff"
  have s: "0 < s" using assms(4) by (simp add: s_def)
  define seq where "seq = map (\<lambda>k. first + k * s) [0..<Suc ((final - first) div s)]"
  have lp: "dpi_list_loop vals None [] = Inr (Some s, [first, final])"
    using dpi_one_step[OF assms(1,2,3)] assms(5) by (simp add: s_def)
  have r: "range_up first (final + 1) s = (if first \<le> final then seq else [])"
    using range_up_map[of s first "final + 1"] s by (simp add: less_Suc_eq_le seq_def)
  have l: "dpi_list_of vals = dpi_validator (if first \<le> final then seq else [])"
    unfolding dpi_list_of_def lp using s r
    by (simp add: range3_def del: range_up.simps upt_Suc)
  have len: "length (remdups seq) = Suc ((final - first) div s)"
    using steps_distinct[OF s, of first "Suc ((final - first) div s)"]
    by (simp add: seq_def distinct_remdups_id del: upt_Suc)
  have ne: "seq \<noteq> []" by (simp add: seq_def)
  have two: "1 < Suc ((final - first) div s) \<longleftrightarrow> first + s \<le> final" if "first \<le> final"
  proof -
    have "0 < (final - first) div s \<longleftrightarrow> s \<le> final - first"
      using s by (simp add: div_greater_zero_iff)
    then show ?thesis using that by auto
  qed
  show ?thesis
    unfolding l s_def[symmetric] seq_def[symmetric]
    using ne len two by (auto simp: dpi_validator_cases)
qed

lemma list14:
  assumes "length (bs :: 'a list) = 14"
  shows "bs = [bs!0, bs!1, bs!2, bs!3, bs!4, bs!5, bs!6, bs!7, bs!8, bs!9, bs!10, bs!11, bs!12, bs!13]"
  using assms by (intro nth_equalityI) (auto simp: nth_Cons' less_Suc_eq numeral_eq_Suc)

lemma unpack_7H_length:
  assumes "length bs = 14"
  shows "unpack_7H bs = Inr [H (bs!0) (bs!1), H (bs!2) (bs!3), H (bs!4) (bs!5), H (bs!6) (bs!7),
     H (bs!8) (bs!9), H (bs!10) (bs!11), H (bs!12) (bs!13)]"
  by (subst list14[OF assms]) (simp only: unpack_7H.simps)

lemma dpi_callback_values:
  assumes "feature_request device F_ADJUSTABLE_DPI 0x10 [] = Some reply" "15 \<le> length reply"
  shows "feature_adjustable_dpi_callback device =
     dpi_list_of [H (reply!1) (reply!2), H (reply!3) (reply!4), H (reply!5) (reply!6),
       H (reply!7) (reply!8), H (reply!9) (reply!10), H (reply!11) (reply!12), H (reply!13) (reply!14)]"
proof -
  define bs where "bs = take 14 (drop 1 reply)"
  have len: "length bs = 14" using assms(2) by (simp add: bs_def)
  have nth: "bs ! j = reply ! (j + 1)" if "j < 14" for j
    using that assms(2) by (simp add: bs_def)
  have two: "Suc (Suc 0) = 2" by simp
  have n: "bs!0 = reply!1" "bs!1 = reply!2" "bs!2 = reply!3" "bs!3 = reply!4" "bs!4 = reply!5"
    "bs!5 = reply!6" "bs!6 = reply!7" "bs!7 = reply!8" "bs!8 = reply!9" "bs!9 = reply!10"
    "bs!10 = reply!11" "bs!11 = reply!12" "bs!12 = reply!13" "bs!13 = reply!14"
    using nth[of 0] nth[of 1] nth[of 2] nth[of 3] nth[of 4] nth[of 5] nth[of 6] nth[of 7]
      nth[of 8] nth[of 9] nth[of 10] nth[of 11] nth[of 12] nth[of 13]
    by (simp_all add: two)
  have ne: "reply \<noteq> []" using assms(2) by auto
  have u: "unpack_7H bs = Inr [H (reply!1) (reply!2), H (reply!3) (reply!4), H (reply!5) (reply!6),
       H (reply!7) (reply!8), H (reply!9) (reply!10), H (reply!11) (reply!12), H (reply!13) (reply!14)]"
    unfolding unpack_7H_length[OF len] n by (rule refl)
  show ?thesis
    using ne
    by (simp only: feature_adjustable_dpi_callback_def assms(1) option.case bs_def[symmetric] u
        if_False sum.case)
qed

lemma step_marked_eval: "step_marked 0xE0C8" "\<not> step_marked 800" "\<not> step_marked 3200"
  "\<not> step_marked 400" "\<not> step_marked 1600" "step_marked 0xE000" "step_marked 0xE1F4"
  by (simp_all add: step_marked_def drop_bit_eq_div)

lemma steps_set:
  assumes "0 < s" "first \<le> final"
  shows "x \<in> set (map (\<lambda>k. first + k * s) [0..<Suc ((final - first) div s)])
         \<longleftrightarrow> first \<le> x \<and> x \<le> final \<and> s dvd (x - first)"
proof
  assume "x \<in> set (map (\<lambda>k. first + k * s) [0..<Suc ((final - first) div s)])"
  then have "x \<in> (\<lambda>k. first + k * s) ` {0..<Suc ((final - first) div s)}"
    by (simp del: upt_Suc)
  then obtain k where kk: "k \<in> {0..<Suc ((final - first) div s)}" and xk: "x = first + k * s"
    by (rule imageE)
  have k: "x = first + k * s" "k \<le> (final - first) div s" using kk xk by simp_all
  have "k * s \<le> ((final - first) div s) * s" using k(2) by simp
  also have "\<dots> \<le> final - first" by simp
  finally show "first \<le> x \<and> x \<le> final \<and> s dvd (x - first)"
    using k(1) assms(2) by simp
next
  assume a: "first \<le> x \<and> x \<le> final \<and> s dvd (x - first)"
  then obtain k where k: "x - first = s * k" by (auto simp: dvd_def)
  have "x - first \<le> final - first" using a by (simp add: diff_le_mono)
  then have "k * s \<le> final - first" using k by (simp add: mult.commute)
  then have "k \<le> (final - first) div s" using assms(1) by (simp add: less_eq_div_iff_mult_less_eq)
  moreover have "x = first + k * s" using a k by (metis le_add_diff_inverse mult.commute)
  ultimately show "x \<in> set (map (\<lambda>k. first + k * s) [0..<Suc ((final - first) div s)])"
    by (auto simp del: upt_Suc)
qed

text \<open>
  Claim C4, amended. On a reply of at least 15 bytes the callback works on the seven
  big-endian 16-bit values of bytes 1 to 14. Only the values before the first zero count.
  When these are a literal \<open>first\<close>, a step-marked value with a non-zero step in its lower
  13 bits, and a literal \<open>final\<close>, the choices are \<open>first\<close>, \<open>first + step\<close>, and so on, as
  long as the value is at most \<open>final\<close>; there is no validator if \<open>final\<close> is below
  \<open>first\<close>, and the constructor of the validator raises if \<open>first\<close> is the only such value.
  The literals 800 and 3200 with step 200 give the 13 choices from 800 to 3200. When no
  value before the first zero is step-marked and at least two of these values differ,
  the choices are exactly these values; there is no validator if there is none, and the
  constructor of the validator raises if there is one.
\<close>

theorem C4_dpi_list:
  "(\<forall>device reply. feature_request device F_ADJUSTABLE_DPI 0x10 [] = Some reply \<and> 15 \<le> length reply \<longrightarrow>
      feature_adjustable_dpi_callback device =
        dpi_list_of [H (reply!1) (reply!2), H (reply!3) (reply!4), H (reply!5) (reply!6),
          H (reply!7) (reply!8), H (reply!9) (reply!10), H (reply!11) (reply!12), H (reply!13) (reply!14)])
   \<and> (\<forall>vals. dpi_list_of vals = dpi_list_of (takeWhile (\<lambda>v. v \<noteq> 0) vals))
   \<and> (\<forall>vals first sv final.
        takeWhile (\<lambda>v. v \<noteq> 0) vals = [first, sv, final] \<and> \<not> step_marked first \<and> step_marked sv
        \<and> sv AND 0x1fff \<noteq> 0 \<and> \<not> step_marked final \<longrightarrow>
        dpi_list_of vals =
          (if final < first then Inr None
           else if final < first + (sv AND 0x1fff) then Inl AssertionError
           else Inr (Some (ChoicesV (NamedInts_list
                  (map (\<lambda>k. first + k * (sv AND 0x1fff))
                     [0..<Suc ((final - first) div (sv AND 0x1fff))]))
                  (Some 3) 0 []))))
   \<and> (\<forall>first final s x. 0 < s \<and> first \<le> final \<longrightarrow>
        (x \<in> set (map (\<lambda>k. first + k * s) [0..<Suc ((final - first) div s)])
         \<longleftrightarrow> first \<le> x \<and> x \<le> final \<and> s dvd (x - first)))
   \<and> dpi_list_of [800, 0xE0C8, 3200, 0, 0, 0, 0] =
        Inr (Some (ChoicesV (NamedInts_list
          [800, 1000, 1200, 1400, 1600, 1800, 2000, 2200, 2400, 2600, 2800, 3000, 3200])
          (Some 3) 0 []))
   \<and> length [800, 1000, 1200, 1400, 1600, 1800, 2000, 2200, 2400, 2600, 2800, 3000, 3200 :: nat] = 13
   \<and> (\<forall>vals. list_all (\<lambda>v. \<not> step_marked v) (takeWhile (\<lambda>v. v \<noteq> 0) vals)
        \<and> 1 < length (remdups (takeWhile (\<lambda>v. v \<noteq> 0) vals)) \<longrightarrow>
        dpi_list_of vals =
          Inr (Some (ChoicesV (NamedInts_list (takeWhile (\<lambda>v. v \<noteq> 0) vals)) (Some 3) 0 [])))
   \<and> (\<forall>vals. takeWhile (\<lambda>v. v \<noteq> 0) vals = [] \<longrightarrow> dpi_list_of vals = Inr None)
   \<and> (\<forall>vals l. takeWhile (\<lambda>v. v \<noteq> 0) vals = [l] \<and> \<not> step_marked l \<longrightarrow>
        dpi_list_of vals = Inl AssertionError)"
proof -
  have a: "feature_adjustable_dpi_callback device =
        dpi_list_of [H (reply!1) (reply!2), H (reply!3) (reply!4), H (reply!5) (reply!6),
          H (reply!7) (reply!8), H (reply!9) (reply!10), H (reply!11) (reply!12), H (reply!13) (reply!14)]"
    if "feature_request device F_ADJUSTABLE_DPI 0x10 [] = Some reply \<and> 15 \<le> length reply"
    for device reply
    using that dpi_callback_values by blast
  have b: "dpi_list_of vals = dpi_list_of (takeWhile (\<lambda>v. v \<noteq> 0) vals)" for vals
    by (rule dpi_list_of_takeWhile)
  have c: "dpi_list_of vals =
          (if final < first then Inr None
           else if final < first + (sv AND 0x1fff) then Inl AssertionError
           else Inr (Some (ChoicesV (NamedInts_list
                  (map (\<lambda>k. first + k * (sv AND 0x1fff))
                     [0..<Suc ((final - first) div (sv AND 0x1fff))]))
                  (Some 3) 0 [])))"
    if "takeWhile (\<lambda>v. v \<noteq> 0) vals = [first, sv, final] \<and> \<not> step_marked first \<and> step_marked sv
        \<and> sv AND 0x1fff \<noteq> 0 \<and> \<not> step_marked final" for vals first sv final
    using that dpi_expand by blast
  have s: "(x \<in> set (map (\<lambda>k. first + k * s) [0..<Suc ((final - first) div s)])
         \<longleftrightarrow> first \<le> x \<and> x \<le> final \<and> s dvd (x - first))"
    if "0 < s \<and> first \<le> final" for first final s x :: nat
    using that steps_set by blast
  have d: "dpi_list_of [800, 0xE0C8, 3200, 0, 0, 0, 0] =
        Inr (Some (ChoicesV (NamedInts_list
          [800, 1000, 1200, 1400, 1600, 1800, 2000, 2200, 2400, 2600, 2800, 3000, 3200])
          (Some 3) 0 []))"
    by (simp add: dpi_list_of_def drop_bit_eq_div range3_def dpi_validator_cases)
  have e: "dpi_list_of vals =
          Inr (Some (ChoicesV (NamedInts_list (takeWhile (\<lambda>v. v \<noteq> 0) vals)) (Some 3) 0 []))"
    if "list_all (\<lambda>v. \<not> step_marked v) (takeWhile (\<lambda>v. v \<noteq> 0) vals)
        \<and> 1 < length (remdups (takeWhile (\<lambda>v. v \<noteq> 0) vals))" for vals
  proof -
    have "takeWhile (\<lambda>v. v \<noteq> 0) vals \<noteq> []" using that by auto
    then show ?thesis using that dpi_no_step[of vals] by (simp add: dpi_validator_cases)
  qed
  have f: "dpi_list_of vals = Inr None" if "takeWhile (\<lambda>v. v \<noteq> 0) vals = []" for vals
    using dpi_no_step[of vals] that by (simp add: dpi_validator_cases)
  have g: "dpi_list_of vals = Inl AssertionError"
    if "takeWhile (\<lambda>v. v \<noteq> 0) vals = [l] \<and> \<not> step_marked l" for vals l
    using dpi_no_step[of vals] that by (simp add: dpi_validator_cases)
  show ?thesis
    apply (intro conjI allI impI)
    subgoal by (rule a)
    subgoal by (rule b)
    subgoal by (rule c)
    subgoal by (rule s)
    subgoal by (rule d)
    subgoal by simp
    subgoal by (rule e)
    subgoal by (rule f)
    subgoal by (rule g)
    done
qed

lemma dpi_reply_range_values:
  "feature_request (dpi_device dpi_reply_range) F_ADJUSTABLE_DPI 0x10 [] = Some dpi_reply_range"
  "15 \<le> length dpi_reply_range"
  "[H (dpi_reply_range!1) (dpi_reply_range!2), H (dpi_reply_range!3) (dpi_reply_range!4),
    H (dpi_reply_range!5) (dpi_reply_range!6), H (dpi_reply_range!7) (dpi_reply_range!8),
    H (dpi_reply_range!9) (dpi_reply_range!10), H (dpi_reply_range!11) (dpi_reply_range!12),
    H (dpi_reply_range!13) (dpi_reply_range!14)] = [800, 0xE0C8, 3200, 0, 0, 0, 0]"
  by (simp_all add: dpi_device_def example_device_def dpi_reply_range_def H_def)

lemma dpi_reply_list_values:
  "feature_request (dpi_device dpi_reply_list) F_ADJUSTABLE_DPI 0x10 [] = Some dpi_reply_list"
  "15 \<le> length dpi_reply_list"
  "[H (dpi_reply_list!1) (dpi_reply_list!2), H (dpi_reply_list!3) (dpi_reply_list!4),
    H (dpi_reply_list!5) (dpi_reply_list!6), H (dpi_reply_list!7) (dpi_reply_list!8),
    H (dpi_reply_list!9) (dpi_reply_list!10), H (dpi_reply_list!11) (dpi_reply_list!12),
    H (dpi_reply_list!13) (dpi_reply_list!14)] = [400, 800, 1600, 0, 3200, 0, 0]"
  by (simp_all add: dpi_device_def example_device_def dpi_reply_list_def H_def)

lemma upt13: "[0..<13] = [0, 1, 2, 3, 4, 5, 6, 7, 8, 9, 10, 11, 12 :: nat]"
  by code_simp

text \<open>
  The callback on a device that replies with the range from 800 to 3200 in steps of 200,
  and on one that replies with a list closed by a zero.
\<close>

theorem C4_dpi_list_witness:
  "feature_adjustable_dpi_callback (dpi_device dpi_reply_range) =
     Inr (Some (ChoicesV (NamedInts_list
       [800, 1000, 1200, 1400, 1600, 1800, 2000, 2200, 2400, 2600, 2800, 3000, 3200])
       (Some 3) 0 []))
   \<and> feature_adjustable_dpi_callback (dpi_device dpi_reply_list) =
     Inr (Some (ChoicesV (NamedInts_list [400, 800, 1600]) (Some 3) 0 []))
   \<and> (1000 \<in> set (map (\<lambda>k. 800 + k * 200) [0..<Suc ((3200 - 800) div 200)]))"
proof -
  note t = C4_dpi_list
  have a1: "feature_adjustable_dpi_callback (dpi_device dpi_reply_range) =
      dpi_list_of [800, 0xE0C8, 3200, 0, 0, 0, 0]"
    using t[THEN conjunct1, rule_format, of "dpi_device dpi_reply_range" dpi_reply_range]
      dpi_reply_range_values by simp
  have a2: "dpi_list_of [800, 0xE0C8, 3200, 0, 0, 0, 0] =
     Inr (Some (ChoicesV (NamedInts_list
       [800, 1000, 1200, 1400, 1600, 1800, 2000, 2200, 2400, 2600, 2800, 3000, 3200])
       (Some 3) 0 []))"
    using t[THEN conjunct2, THEN conjunct2, THEN conjunct1, rule_format,
        of "[800, 0xE0C8, 3200, 0, 0, 0, 0]" 800 "0xE0C8" 3200]
    by (simp add: step_marked_eval upt13 del: upt_Suc)
  have b1: "feature_adjustable_dpi_callback (dpi_device dpi_reply_list) =
      dpi_list_of [400, 800, 1600, 0, 3200, 0, 0]"
    using t[THEN conjunct1, rule_format, of "dpi_device dpi_reply_list" dpi_reply_list]
      dpi_reply_list_values by simp
  have b2: "dpi_list_of [400, 800, 1600, 0, 3200, 0, 0] =
     Inr (Some (ChoicesV (NamedInts_list [400, 800, 1600]) (Some 3) 0 []))"
    using t[THEN conjunct2, THEN conjunct2, THEN conjunct2, THEN conjunct2, THEN conjunct2,
        THEN conjunct2, THEN conjunct1, rule_format, of "[400, 800, 1600, 0, 3200, 0, 0]"]
    by (simp add: step_marked_eval)
  have c: "1000 \<in> set (map (\<lambda>k. 800 + k * 200) [0..<Suc ((3200 - 800) div 200)])"
    using t[THEN conjunct2, THEN conjunct2, THEN conjunct2, THEN conjunct1, rule_format,
        of 200 800 3200 1000]
    by simp
  show ?thesis using a1 a2 b1 b2 c by simp
qed




lemma dpi_zero_step:
  assumes "takeWhile (\<lambda>v. v \<noteq> 0) vals = l # sv # lits"
    and "\<not> step_marked l" "step_marked sv" "list_all (\<lambda>v. \<not> step_marked v) lits"
    and "sv AND 0x1fff = 0"
  shows "dpi_list_of vals = dpi_validator (l # lits)"
  unfolding dpi_list_of_def dpi_one_step[OF assms(1-4)] using assms(5)
  by simp



lemma dpi_callback_dpi_values:
  assumes "feature_request device F_ADJUSTABLE_DPI 0x10 [] = Some reply" "15 \<le> length reply"
  shows "feature_adjustable_dpi_callback device = dpi_list_of (dpi_values reply)"
  unfolding dpi_values_def by (rule dpi_callback_values[OF assms])




text \<open>
  Claim C10, amended. When the values before the first zero are one literal, a
  step-marked value whose lower 13 bits are zero, and then literals only, with at least
  two different values among all these literals, the callback raises nothing and expands
  nothing: the choices are the literals.
\<close>

theorem C10_zero_step:
  "\<forall>device reply l sv lits.
      feature_request device F_ADJUSTABLE_DPI 0x10 [] = Some reply \<and> 15 \<le> length reply
      \<and> takeWhile (\<lambda>v. v \<noteq> 0) (dpi_values reply) = l # sv # lits
      \<and> \<not> step_marked l \<and> step_marked sv \<and> sv AND 0x1fff = 0
      \<and> list_all (\<lambda>v. \<not> step_marked v) lits
      \<and> 1 < length (remdups (l # lits))
      \<longrightarrow> feature_adjustable_dpi_callback device =
            Inr (Some (ChoicesV (NamedInts_list (l # lits)) (Some 3) 0 []))"
proof (intro allI impI)
  fix device :: device and reply l sv lits
  assume a: "feature_request device F_ADJUSTABLE_DPI 0x10 [] = Some reply \<and> 15 \<le> length reply
      \<and> takeWhile (\<lambda>v. v \<noteq> 0) (dpi_values reply) = l # sv # lits
      \<and> \<not> step_marked l \<and> step_marked sv \<and> sv AND 0x1fff = 0
      \<and> list_all (\<lambda>v. \<not> step_marked v) lits
      \<and> 1 < length (remdups (l # lits))"
  have "feature_adjustable_dpi_callback device = dpi_validator (l # lits)"
    using a dpi_callback_dpi_values[of device reply] dpi_zero_step[of "dpi_values reply" l sv lits]
    by simp
  also have "\<dots> = Inr (Some (ChoicesV (NamedInts_list (l # lits)) (Some 3) 0 []))"
    using a unfolding dpi_validator_cases by (simp del: remdups.simps)
  finally show "feature_adjustable_dpi_callback device =
            Inr (Some (ChoicesV (NamedInts_list (l # lits)) (Some 3) 0 []))" .
qed

lemmas dpi_reply_defs =
  dpi_reply_range_def dpi_reply_list_def dpi_reply_step_alone_def dpi_reply_zero_step_def
  dpi_reply_zero_step_pair_def dpi_reply_two_steps_def dpi_reply_step_first_def
  dpi_reply_step_500_def dpi_reply_zero_step_three_def dpi_reply_single_def

lemma dpi_device_request:
  "feature_request (dpi_device reply) F_ADJUSTABLE_DPI 0x10 [] = Some reply"
  "features (dpi_device reply) = Some {F_ADJUSTABLE_DPI}" "online (dpi_device reply)"
  "protocol (dpi_device reply) = Some 2"
  by (simp_all add: dpi_device_def example_device_def)

lemma dpi_values_eval:
  "dpi_values dpi_reply_step_alone = [800, 0xE0C8, 0, 0, 0, 0, 0]"
  "dpi_values dpi_reply_zero_step = [800, 0xE000, 0, 0, 0, 0, 0]"
  "dpi_values dpi_reply_zero_step_pair = [800, 0xE000, 3200, 0, 0, 0, 0]"
  "dpi_values dpi_reply_two_steps = [800, 0xE000, 0xE0C8, 3200, 0, 0, 0]"
  "dpi_values dpi_reply_step_first = [0xE0C8, 800, 3200, 0, 0, 0, 0]"
  "dpi_values dpi_reply_step_500 = [800, 0xE1F4, 3200, 0, 0, 0, 0]"
  "dpi_values dpi_reply_zero_step_three = [800, 0xE000, 1600, 3200, 0, 0, 0]"
  "dpi_values dpi_reply_single = [800, 0, 0, 0, 0, 0, 0]"
  by (simp_all add: dpi_values_def dpi_reply_defs H_def)

lemma dpi_reply_lengths:
  "15 \<le> length dpi_reply_step_alone" "15 \<le> length dpi_reply_zero_step"
  "15 \<le> length dpi_reply_zero_step_pair" "15 \<le> length dpi_reply_two_steps"
  "15 \<le> length dpi_reply_step_first" "15 \<le> length dpi_reply_step_500"
  "15 \<le> length dpi_reply_zero_step_three" "15 \<le> length dpi_reply_single"
  by (simp_all add: dpi_reply_defs)

text \<open>
  Claim C4 as stated fails: with the literals 800 and 3200 and a step of 500 the choices
  are 800, 1300, 1800, 2300 and 2800; the second literal, 3200, is not among them. And
  the list of the one literal 800, closed by a zero, with no step, does not yield the
  literal: the constructor of the validator raises.
\<close>

theorem C4_last_literal_counterexample:
  "dpi_values dpi_reply_step_500 = [800, 0xE1F4, 3200, 0, 0, 0, 0]
   \<and> \<not> step_marked 800 \<and> step_marked 0xE1F4 \<and> \<not> step_marked 3200
   \<and> (0xE1F4 :: nat) AND 0x1fff = 500
   \<and> feature_adjustable_dpi_callback (dpi_device dpi_reply_step_500) =
       Inr (Some (ChoicesV (NamedInts_list [800, 1300, 1800, 2300, 2800]) (Some 3) 0 []))
   \<and> 3200 \<notin> set [800, 1300, 1800, 2300, 2800 :: nat]
   \<and> dpi_values dpi_reply_single = [800, 0, 0, 0, 0, 0, 0]
   \<and> feature_adjustable_dpi_callback (dpi_device dpi_reply_single) = Inl AssertionError"
proof -
  have m: "(0xE1F4 :: nat) AND 0x1fff = 500"
    by simp
  have cb: "feature_adjustable_dpi_callback (dpi_device dpi_reply_step_500) =
       Inr (Some (ChoicesV (NamedInts_list [800, 1300, 1800, 2300, 2800]) (Some 3) 0 []))"
    unfolding dpi_callback_dpi_values[OF dpi_device_request(1) dpi_reply_lengths(6)] dpi_values_eval
    by (simp add: dpi_list_of_def drop_bit_eq_div range3_def dpi_validator_cases m)
  have cs: "feature_adjustable_dpi_callback (dpi_device dpi_reply_single) = Inl AssertionError"
    unfolding dpi_callback_dpi_values[OF dpi_device_request(1) dpi_reply_lengths(8)] dpi_values_eval
    by (simp add: dpi_list_of_def drop_bit_eq_div dpi_validator_cases)
  show ?thesis using cb cs m by (simp add: dpi_values_eval step_marked_eval)
qed



text \<open>
  The reply with 800, 0xE000 and 3200 gives the two choices 800 and 3200.
\<close>

theorem C10_zero_step_witness:
  "feature_adjustable_dpi_callback (dpi_device dpi_reply_zero_step_pair) =
     Inr (Some (ChoicesV (NamedInts_list [800, 3200]) (Some 3) 0 []))"
  using C10_zero_step[rule_format,
      of "dpi_device dpi_reply_zero_step_pair" dpi_reply_zero_step_pair 800 "0xE000" "[3200]"]
  by (simp add: dpi_device_request dpi_values_eval dpi_reply_lengths step_marked_eval)

text \<open>
  Claim C10 as stated fails: the reply has the step-marked value 0xE000 after exactly one
  literal, and the callback raises, because another step-marked value follows it. It
  also raises on the reply with 800 and 0xE000 only, where the one literal collected is
  one choice, with which the constructor of the validator raises.
\<close>

theorem C10_second_step_counterexample:
  "takeWhile (\<lambda>v. v \<noteq> 0) (dpi_values dpi_reply_two_steps) = [800, 0xE000, 0xE0C8, 3200]
   \<and> \<not> step_marked 800 \<and> step_marked 0xE000 \<and> (0xE000 :: nat) AND 0x1fff = 0
   \<and> feature_adjustable_dpi_callback (dpi_device dpi_reply_two_steps) = Inl AssertionError
   \<and> takeWhile (\<lambda>v. v \<noteq> 0) (dpi_values dpi_reply_zero_step) = [800, 0xE000]
   \<and> feature_adjustable_dpi_callback (dpi_device dpi_reply_zero_step) = Inl AssertionError"
proof -
  have cb: "feature_adjustable_dpi_callback (dpi_device dpi_reply_two_steps) = Inl AssertionError"
    unfolding dpi_callback_dpi_values[OF dpi_device_request(1) dpi_reply_lengths(4)] dpi_values_eval
    by (simp add: dpi_list_of_def drop_bit_eq_div)
  have cz: "feature_adjustable_dpi_callback (dpi_device dpi_reply_zero_step) = Inl AssertionError"
    unfolding dpi_callback_dpi_values[OF dpi_device_request(1) dpi_reply_lengths(2)] dpi_values_eval
    by (simp add: dpi_list_of_def drop_bit_eq_div dpi_validator_cases)
  show ?thesis using cb cz by (simp add: dpi_values_eval step_marked_eval)
qed

subsection \<open>The multiplatform descriptors\<close>

lemma keep_new_append: "keep_new (xs @ ys) kept = keep_new ys (keep_new xs kept)"
proof (induction xs arbitrary: kept)
  case Nil show ?case by simp
next
  case (Cons c xs)
  obtain platform os where c: "c = (platform, os)" by (cases c)
  show ?case unfolding c using Cons by simp
qed

lemma choices_of_os_keep_new:
  "choices_of_os os_name os_bit descriptors choices =
     keep_new (map (\<lambda>(platform, os_flags, low, high). (platform, os_name @ str_os_versions low high))
        (filter (\<lambda>(platform, os_flags, low, high). os_bit AND os_flags \<noteq> 0) descriptors)) choices"
proof (induction descriptors arbitrary: choices)
  case Nil show ?case by simp
next
  case (Cons d descriptors)
  obtain platform os_flags low high where d: "d = (platform, os_flags, low, high)" by (cases d)
  show ?case unfolding d using Cons
    by (simp add: Let_def int_in_def str_in_def setitem_def)
qed

lemma choices_of_oss_keep_new:
  "choices_of_oss oss descriptors choices = keep_new (os_candidates oss descriptors) choices"
proof (induction oss arbitrary: choices)
  case Nil show ?case by (simp add: os_candidates_def)
next
  case (Cons e oss)
  obtain os_name os_bit where e: "e = (os_name, os_bit)" by (cases e)
  have "os_candidates (e # oss) descriptors =
      map (\<lambda>(platform, os_flags, low, high). (platform, os_name @ str_os_versions low high))
        (filter (\<lambda>(platform, os_flags, low, high). os_bit AND os_flags \<noteq> 0) descriptors)
      @ os_candidates oss descriptors"
    unfolding e by (simp add: os_candidates_def)
  then show ?case unfolding e using Cons
    by (simp add: choices_of_os_keep_new keep_new_append del: choices_of_os.simps)
qed

lemma keep_new_distinct:
  "distinct (map fst kept) \<Longrightarrow> distinct (map snd kept) \<Longrightarrow>
   distinct (map fst (keep_new cs kept)) \<and> distinct (map snd (keep_new cs kept))"
proof (induction cs arbitrary: kept)
  case Nil then show ?case by simp
next
  case (Cons c cs)
  obtain platform os where c: "c = (platform, os)" by (cases c)
  show ?case
  proof (cases "platform \<in> fst ` set kept \<or> os \<in> snd ` set kept")
    case True
    then show ?thesis unfolding c using Cons by simp
  next
    case False
    have "distinct (map fst (kept @ [(platform, os)]))" "distinct (map snd (kept @ [(platform, os)]))"
      using False Cons.prems by auto
    then show ?thesis unfolding c using False Cons.IH[of "kept @ [(platform, os)]"] by simp
  qed
qed

lemma choices_of_os_single:
  "choices_of_os os_name os_bit [(platform, os_flags, low, high)] choices =
     (if os_bit AND os_flags \<noteq> 0 \<and> \<not> int_in platform choices
         \<and> \<not> str_in (os_name @ str_os_versions low high) choices
      then choices @ [(platform, os_name @ str_os_versions low high)] else choices)"
  by (simp add: Let_def setitem_def)

lemma choices_of_oss_known:
  "int_in platform choices \<Longrightarrow>
   choices_of_oss oss [(platform, os_flags, low, high)] choices = choices"
proof (induction oss)
  case Nil show ?case by simp
next
  case (Cons e oss)
  obtain os_name os_bit where e: "e = (os_name, os_bit)" by (cases e)
  show ?case unfolding e using Cons by (simp add: choices_of_os_single del: choices_of_os.simps)
qed

lemma choices_of_oss_single:
  "choices_of_oss oss [(platform, os_flags, low, high)] [] =
     (case filter (\<lambda>(os_name, os_bit). os_bit AND os_flags \<noteq> 0) oss of
        [] \<Rightarrow> []
      | (os_name, os_bit) # _ \<Rightarrow> [(platform, os_name @ str_os_versions low high)])"
proof (induction oss)
  case Nil show ?case by simp
next
  case (Cons e oss)
  obtain os_name os_bit where e: "e = (os_name, os_bit)" by (cases e)
  show ?case
  proof (cases "os_bit AND os_flags \<noteq> 0")
    case False
    then show ?thesis unfolding e using Cons
      by (simp add: choices_of_os_single del: choices_of_os.simps)
  next
    case True
    have "choices_of_os os_name os_bit [(platform, os_flags, low, high)] [] =
        [(platform, os_name @ str_os_versions low high)]"
      using True by (simp add: choices_of_os_single int_in_def str_in_def del: choices_of_os.simps)
    moreover have "int_in platform [(platform, os_name @ str_os_versions low high)]"
      by (simp add: int_in_def)
    ultimately show ?thesis unfolding e using True
      by (simp add: choices_of_oss_known del: choices_of_os.simps)
  qed
qed

lemma multiplatform_choices:
  assumes "feature_request device F_MULTIPLATFORM 0x00 [] = Some (flags # ignore # n # rest)"
    and "unat flags AND 0x02 \<noteq> 0"
    and "read_descriptors device [0..<unat n] [] = Inr descriptors"
  shows "feature_multiplatform_callback device =
     (if choices_of_oss OSS descriptors [] = [] then Inr None
      else if 1 < length (choices_of_oss OSS descriptors [])
      then Inr (Some (ChoicesV (NamedInts (choices_of_oss OSS descriptors [])) None 6 [0xff]))
      else Inl AssertionError)"
  unfolding feature_multiplatform_callback_def assms(1)
  using assms(2,3)
  by (simp add: Let_def new_ChoicesV_def del: choices_of_oss.simps read_descriptors.simps)

lemma multiplatform_not_settable:
  assumes "feature_request device F_MULTIPLATFORM 0x00 [] = Some (flags # ignore # n # rest)"
    and "unat flags AND 0x02 = 0"
  shows "feature_multiplatform_callback device = Inr (Some EmptyList)"
    and "setting_call feature_multiplatform device = Inr None"
proof -
  show c: "feature_multiplatform_callback device = Inr (Some EmptyList)"
    unfolding feature_multiplatform_callback_def assms(1) using assms(2) by simp
  show "setting_call feature_multiplatform device = Inr None"
    by (simp add: setting_call_def feature_multiplatform_def Setting_def c)
qed

lemma multiplatform_single_descriptor:
  assumes "feature_request device F_MULTIPLATFORM 0x00 [] = Some (flags # ignore # 1 # rest)"
    and "unat flags AND 0x02 \<noteq> 0"
    and "feature_request device F_MULTIPLATFORM 0x10 [0] =
           Some (platform # ignore' # f0 # f1 # l0 # l1 # h0 # h1 # rest')"
    and "filter (\<lambda>(os_name, os_bit). os_bit AND H f0 f1 \<noteq> 0) OSS \<noteq> []"
  shows "feature_multiplatform_callback device = Inl AssertionError"
proof -
  have d: "read_descriptors device [0..<unat (1 :: byte)] [] =
      Inr [(unat platform, H f0 f1, H l0 l1, H h0 h1)]"
    using assms(3) by simp
  have "length (choices_of_oss OSS [(unat platform, H f0 f1, H l0 l1, H h0 h1)] []) = 1"
    unfolding choices_of_oss_single using assms(4) by (simp split: list.splits prod.splits)
  then show ?thesis
    unfolding multiplatform_choices[OF assms(1,2) d] by (auto simp del: choices_of_oss.simps)
qed

text \<open>
  Claim C9, amended. The choices that the loops of the callback build are the
  candidates, taken in the order of \<open>OSS\<close> and, for one entry of \<open>OSS\<close>, in the order of
  the descriptors, of which one is kept only if neither its platform nor its formatted
  name of the operating system is among the choices kept before it; so no two choices
  have the same platform or the same name. For a reply with the settable flag, whose
  descriptors are read without error, the callback yields no validator when there is no
  choice, the validator of the choices when there are at least two, and the exception of
  the constructor of the validator when there is one. One descriptor gives one choice if
  any entry of \<open>OSS\<close> matches its bitmap, also when exactly two entries match: its
  platform, named after the first matching entry in the order of \<open>OSS\<close>, with the version
  suffix; the callback then raises.
\<close>

theorem C9_multiplatform_choices:
  "(\<forall>oss descriptors. choices_of_oss oss descriptors [] = keep_new (os_candidates oss descriptors) [])
   \<and> (\<forall>oss descriptors. distinct (map fst (choices_of_oss oss descriptors []))
        \<and> distinct (map snd (choices_of_oss oss descriptors [])))
   \<and> (\<forall>device flags ignore n rest descriptors.
      feature_request device F_MULTIPLATFORM 0x00 [] = Some (flags # ignore # n # rest)
      \<and> unat flags AND 0x02 \<noteq> 0
      \<and> read_descriptors device [0..<unat n] [] = Inr descriptors
      \<longrightarrow> feature_multiplatform_callback device =
            (if choices_of_oss OSS descriptors [] = [] then Inr None
             else if 1 < length (choices_of_oss OSS descriptors [])
             then Inr (Some (ChoicesV (NamedInts (choices_of_oss OSS descriptors [])) None 6 [0xff]))
             else Inl AssertionError))
   \<and> (\<forall>platform os_flags low high name1 bit1 more.
      filter (\<lambda>(os_name, os_bit). os_bit AND os_flags \<noteq> 0) OSS = (name1, bit1) # more
      \<longrightarrow> choices_of_oss OSS [(platform, os_flags, low, high)] [] =
            [(platform, name1 @ str_os_versions low high)])
   \<and> (\<forall>device flags ignore rest platform ignore' f0 f1 l0 l1 h0 h1 rest'.
      feature_request device F_MULTIPLATFORM 0x00 [] = Some (flags # ignore # 1 # rest)
      \<and> unat flags AND 0x02 \<noteq> 0
      \<and> feature_request device F_MULTIPLATFORM 0x10 [0] =
           Some (platform # ignore' # f0 # f1 # l0 # l1 # h0 # h1 # rest')
      \<and> filter (\<lambda>(os_name, os_bit). os_bit AND H f0 f1 \<noteq> 0) OSS \<noteq> []
      \<longrightarrow> feature_multiplatform_callback device = Inl AssertionError)"
proof -
  have a: "choices_of_oss oss descriptors [] = keep_new (os_candidates oss descriptors) []"
    for oss descriptors
    by (rule choices_of_oss_keep_new)
  have b: "distinct (map fst (choices_of_oss oss descriptors []))
        \<and> distinct (map snd (choices_of_oss oss descriptors []))" for oss descriptors
    unfolding choices_of_oss_keep_new by (rule keep_new_distinct) simp_all
  have c: "feature_multiplatform_callback device =
            (if choices_of_oss OSS descriptors [] = [] then Inr None
             else if 1 < length (choices_of_oss OSS descriptors [])
             then Inr (Some (ChoicesV (NamedInts (choices_of_oss OSS descriptors [])) None 6 [0xff]))
             else Inl AssertionError)"
    if "feature_request device F_MULTIPLATFORM 0x00 [] = Some (flags # ignore # n # rest)
      \<and> unat flags AND 0x02 \<noteq> 0
      \<and> read_descriptors device [0..<unat n] [] = Inr descriptors"
    for device flags ignore n rest descriptors
    using that multiplatform_choices by blast
  have d: "choices_of_oss OSS [(platform, os_flags, low, high)] [] =
            [(platform, name1 @ str_os_versions low high)]"
    if "filter (\<lambda>(os_name, os_bit). os_bit AND os_flags \<noteq> 0) OSS = (name1, bit1) # more"
    for platform os_flags low high name1 bit1 more
    unfolding choices_of_oss_single that by simp
  have e: "feature_multiplatform_callback device = Inl AssertionError"
    if "feature_request device F_MULTIPLATFORM 0x00 [] = Some (flags # ignore # 1 # rest)
      \<and> unat flags AND 0x02 \<noteq> 0
      \<and> feature_request device F_MULTIPLATFORM 0x10 [0] =
           Some (platform # ignore' # f0 # f1 # l0 # l1 # h0 # h1 # rest')
      \<and> filter (\<lambda>(os_name, os_bit). os_bit AND H f0 f1 \<noteq> 0) OSS \<noteq> []"
    for device flags ignore rest platform ignore' f0 f1 l0 l1 h0 h1 rest'
    using that multiplatform_single_descriptor by blast
  show ?thesis
    apply (intro conjI allI impI)
    subgoal by (rule a)
    subgoal by (rule b[THEN conjunct1])
    subgoal by (rule b[THEN conjunct2])
    subgoal by (rule c)
    subgoal by (rule d)
    subgoal by (rule e)
    done
qed

lemma multiplatform_device_request:
  "feature_request (multiplatform_device descriptors) F_MULTIPLATFORM 0x00 [] =
     Some [0x02, 0, of_nat (length descriptors)]"
  "i < length descriptors \<Longrightarrow> i < 256 \<Longrightarrow>
   feature_request (multiplatform_device descriptors) F_MULTIPLATFORM 0x10 [of_nat i] =
     Some (descriptors ! i)"
  by (simp_all add: multiplatform_device_def example_device_def unat_of_nat)

lemma filter_macos_linux:
  "filter (\<lambda>(os_name, os_bit). os_bit AND H 0x24 0x00 \<noteq> 0) OSS = [(''Linux'', 0x0400), (''MacOS'', 0x2000)]"
  by (simp add: OSS_def H_def)

lemma filter_linux_windows:
  "filter (\<lambda>(os_name, os_bit). os_bit AND H 0x05 0x00 \<noteq> 0) OSS = [(''Linux'', 0x0400), (''Windows'', 0x0100)]"
  by (simp add: OSS_def H_def)

lemma digit_char_eval:
  "digit_char 0 = CHR ''0''" "digit_char 1 = CHR ''1''" "digit_char 2 = CHR ''2''"
  "digit_char 3 = CHR ''3''" "digit_char 4 = CHR ''4''" "digit_char 5 = CHR ''5''"
  "digit_char 6 = CHR ''6''" "digit_char 7 = CHR ''7''" "digit_char 8 = CHR ''8''"
  "digit_char 9 = CHR ''9''" "digit_char (Suc 0) = CHR ''1''"
  by (simp_all add: digit_char_def char_of_def bit_Suc_0_iff)

lemma versions_eval: "str_os_versions (H 0x0A 0x00) (H 0x0B 0x02) = '' 10-11.2''"
  "str_os_versions (H 0 0) (H 0 0) = []" "str_os_versions 0 0 = []"
  by (simp_all add: str_os_versions_def str_os_version_def H_def drop_bit_eq_div digit_char_eval)

lemma upt23: "[0..<2] = [0, 1 :: nat]" "[0..<3] = [0, 1, 2 :: nat]"
  by code_simp+

lemma read_two_descriptors:
  "read_descriptors (multiplatform_device [descriptor_windows, descriptor_linux]) [0..<2] [] =
     Inr [(0, 0x0100, 0, 0), (1, 0x0400, 0, 0)]"
  by (simp add: upt23 multiplatform_device_def example_device_def descriptor_windows_def
      descriptor_linux_def H_def)

lemma read_three_descriptors:
  "read_descriptors
     (multiplatform_device [descriptor_linux, descriptor_linux_again, descriptor_windows]) [0..<3] [] =
     Inr [(1, 0x0400, 0, 0), (2, 0x0400, 0, 0), (0, 0x0100, 0, 0)]"
  by (simp add: upt23 multiplatform_device_def example_device_def descriptor_windows_def
      descriptor_linux_def descriptor_linux_again_def H_def)

lemma candidates_two:
  "os_candidates OSS [(0, 0x0100, 0, 0), (1, 0x0400, 0, 0)] = [(1, ''Linux''), (0, ''Windows'')]"
  by (simp add: os_candidates_def OSS_def versions_eval)

lemma candidates_three:
  "os_candidates OSS [(1, 0x0400, 0, 0), (2, 0x0400, 0, 0), (0, 0x0100, 0, 0)] =
     [(1, ''Linux''), (2, ''Linux''), (0, ''Windows'')]"
  by (simp add: os_candidates_def OSS_def versions_eval)

text \<open>
  Two descriptors, of platform 0 for Windows and of platform 1 for Linux: two choices, in
  the order of \<open>OSS\<close>, where Linux comes first. Three descriptors, of platforms 1 and 2
  for Linux and of platform 0 for Windows: platform 2 is passed over, because its name
  is among the choices, and the choices are the same two. One descriptor of platform 3
  with the bits of MacOS and Linux and versions 10.0 to 11.2: the one choice is named
  after Linux, and the callback raises.
\<close>

theorem C9_multiplatform_choices_witness:
  "feature_multiplatform_callback (multiplatform_device [descriptor_windows, descriptor_linux]) =
     Inr (Some (ChoicesV (NamedInts [(1, ''Linux''), (0, ''Windows'')]) None 6 [0xff]))
   \<and> feature_multiplatform_callback
       (multiplatform_device [descriptor_linux, descriptor_linux_again, descriptor_windows]) =
     Inr (Some (ChoicesV (NamedInts [(1, ''Linux''), (0, ''Windows'')]) None 6 [0xff]))
   \<and> choices_of_oss OSS [(3, 0x2400, 0x0A00, 0x0B02)] [] = [(3, ''Linux 10-11.2'')]
   \<and> feature_multiplatform_callback (multiplatform_device [descriptor_macos_linux]) =
     Inl AssertionError"
proof -
  note t = C9_multiplatform_choices
  have f: "unat (0x02 :: byte) AND 0x02 \<noteq> 0" by simp
  have c2: "choices_of_oss OSS [(0, 0x0100, 0, 0), (1, 0x0400, 0, 0)] [] =
      [(1, ''Linux''), (0, ''Windows'')]"
    unfolding t[THEN conjunct1, rule_format] candidates_two by simp
  have c3: "choices_of_oss OSS [(1, 0x0400, 0, 0), (2, 0x0400, 0, 0), (0, 0x0100, 0, 0)] [] =
      [(1, ''Linux''), (0, ''Windows'')]"
    unfolding t[THEN conjunct1, rule_format] candidates_three by simp
  have r2: "feature_request (multiplatform_device [descriptor_windows, descriptor_linux])
      F_MULTIPLATFORM 0x00 [] = Some [0x02, 0, 2]"
    by (simp add: multiplatform_device_request)
  have d2: "read_descriptors (multiplatform_device [descriptor_windows, descriptor_linux])
      [0..<unat (2 :: byte)] [] = Inr [(0, 0x0100, 0, 0), (1, 0x0400, 0, 0)]"
    using read_two_descriptors by simp
  have a: "feature_multiplatform_callback (multiplatform_device [descriptor_windows, descriptor_linux]) =
     Inr (Some (ChoicesV (NamedInts [(1, ''Linux''), (0, ''Windows'')]) None 6 [0xff]))"
    unfolding t[THEN conjunct2, THEN conjunct2, THEN conjunct1, rule_format,
        OF conjI[OF r2 conjI[OF f d2]]] c2
    by simp
  have r3: "feature_request
      (multiplatform_device [descriptor_linux, descriptor_linux_again, descriptor_windows])
      F_MULTIPLATFORM 0x00 [] = Some [0x02, 0, 3]"
    by (simp add: multiplatform_device_request)
  have d3: "read_descriptors
      (multiplatform_device [descriptor_linux, descriptor_linux_again, descriptor_windows])
      [0..<unat (3 :: byte)] [] = Inr [(1, 0x0400, 0, 0), (2, 0x0400, 0, 0), (0, 0x0100, 0, 0)]"
    using read_three_descriptors by simp
  have b: "feature_multiplatform_callback
       (multiplatform_device [descriptor_linux, descriptor_linux_again, descriptor_windows]) =
     Inr (Some (ChoicesV (NamedInts [(1, ''Linux''), (0, ''Windows'')]) None 6 [0xff]))"
    unfolding t[THEN conjunct2, THEN conjunct2, THEN conjunct1, rule_format,
        OF conjI[OF r3 conjI[OF f d3]]] c3
    by simp
  have c: "choices_of_oss OSS [(3, 0x2400, 0x0A00, 0x0B02)] [] = [(3, ''Linux 10-11.2'')]"
    using t[THEN conjunct2, THEN conjunct2, THEN conjunct2, THEN conjunct1, rule_format,
        of "0x2400" "''Linux''" "0x0400" "[(''MacOS'', 0x2000)]" 3 "0x0A00" "0x0B02"]
      filter_macos_linux versions_eval(1)
    by (simp add: H_def del: choices_of_oss.simps)
  have d: "feature_multiplatform_callback (multiplatform_device [descriptor_macos_linux]) =
     Inl AssertionError"
    using t[THEN conjunct2, THEN conjunct2, THEN conjunct2, THEN conjunct2, rule_format,
        of "multiplatform_device [descriptor_macos_linux]" "0x02" 0 "[]" 3 0 "0x24" "0x00"
           "0x0A" "0x00" "0x0B" "0x02" "[]"]
      multiplatform_device_request(1)[of "[descriptor_macos_linux]"]
      multiplatform_device_request(2)[of 0 "[descriptor_macos_linux]"]
      filter_macos_linux f
    by (simp add: descriptor_macos_linux_def)
  show ?thesis using a b c d by blast
qed

text \<open>
  Claim C9 as stated fails: with the settable flag and one descriptor whose bitmap matches
  exactly the two entries Linux and Windows of \<open>OSS\<close>, the loops build one choice, not
  two, and the callback raises instead of producing a choice list.
\<close>

theorem C9_two_matches_counterexample:
  "feature_request (multiplatform_device [descriptor_linux_windows]) F_MULTIPLATFORM 0x00 [] =
       Some [0x02, 0, 1]
   \<and> feature_request (multiplatform_device [descriptor_linux_windows]) F_MULTIPLATFORM 0x10 [0] =
       Some [0, 0, 0x05, 0x00, 0, 0, 0, 0]
   \<and> filter (\<lambda>(os_name, os_bit). os_bit AND H 0x05 0x00 \<noteq> 0) OSS =
       [(''Linux'', 0x0400), (''Windows'', 0x0100)]
   \<and> choices_of_oss OSS [(0, H 0x05 0x00, 0, 0)] [] = [(0, ''Linux'')]
   \<and> length [(0 :: nat, ''Linux'')] = 1
   \<and> feature_multiplatform_callback (multiplatform_device [descriptor_linux_windows]) =
       Inl AssertionError"
proof -
  have r: "feature_request (multiplatform_device [descriptor_linux_windows]) F_MULTIPLATFORM 0x00 [] =
       Some [0x02, 0, 1]"
    "feature_request (multiplatform_device [descriptor_linux_windows]) F_MULTIPLATFORM 0x10 [0] =
       Some [0, 0, 0x05, 0x00, 0, 0, 0, 0]"
    using multiplatform_device_request(1)[of "[descriptor_linux_windows]"]
      multiplatform_device_request(2)[of 0 "[descriptor_linux_windows]"]
    by (simp_all add: descriptor_linux_windows_def)
  have f: "unat (0x02 :: byte) AND 0x02 \<noteq> 0" by simp
  have ne: "filter (\<lambda>(os_name, os_bit). os_bit AND H 0x05 0x00 \<noteq> 0) OSS \<noteq> []"
    unfolding filter_linux_windows by simp
  have cb: "feature_multiplatform_callback (multiplatform_device [descriptor_linux_windows]) =
       Inl AssertionError"
    by (rule multiplatform_single_descriptor[OF r(1) f r(2) ne])
  have ch: "choices_of_oss OSS [(0, H 0x05 0x00, 0, 0)] [] = [(0, ''Linux'')]"
    unfolding choices_of_oss_single filter_linux_windows by (simp add: versions_eval)
  show ?thesis using r cb ch filter_linux_windows by simp
qed

end
